theory Spec2Isabelle
  imports Main "HOL-Library.Sublist"
begin

section \<open>Python strings and values\<close>

text \<open>
  A Python \<open>str\<close> is modelled as a \<open>string\<close> whose characters are the code points
  0..255; text outside that range is not modelled. \<open>str.strip()\<close> removes the
  characters for which \<open>str.isspace\<close> holds from both ends, \<open>str.lower()\<close> maps
  the upper-case letters of that range to their lower-case partners (code point + 32).
\<close>

definition is_space :: "char \<Rightarrow> bool" where
  "is_space c = ((of_char c :: nat) \<in> {9, 10, 11, 12, 13, 28, 29, 30, 31, 32, 133, 160})"

definition py_strip :: "string \<Rightarrow> string" where
  "py_strip s = rev (dropWhile is_space (rev (dropWhile is_space s)))"

definition is_upper :: "char \<Rightarrow> bool" where
  "is_upper c = (let n = (of_char c :: nat)
     in (65 \<le> n \<and> n \<le> 90) \<or> (192 \<le> n \<and> n \<le> 222 \<and> n \<noteq> 215))"

fun add32 :: "char \<Rightarrow> char" where
  "add32 (Char b0 b1 b2 b3 b4 b5 b6 b7) = Char b0 b1 b2 b3 b4 True b6 b7"

definition lower_char :: "char \<Rightarrow> char" where
  "lower_char c = (if is_upper c then add32 c else c)"

definition py_lower :: "string \<Rightarrow> string" where
  "py_lower s = map lower_char s"

text \<open>\<open>sep.join(xs)\<close>.\<close>

fun join :: "string \<Rightarrow> string list \<Rightarrow> string" where
  "join sep [] = []"
| "join sep [x] = x"
| "join sep (x # y # ys) = x @ sep @ join sep (y # ys)"

text \<open>\<open>s.split(d)\<close> for a one-character separator.\<close>

fun split_on :: "char \<Rightarrow> string \<Rightarrow> string list" where
  "split_on d [] = [[]]"
| "split_on d (c # cs) =
     (if c = d then [] # split_on d cs
      else (case split_on d cs of [] \<Rightarrow> [[c]] | x # xs \<Rightarrow> (c # x) # xs))"

text \<open>\<open>str(n)\<close> for a natural number.\<close>

definition digits10 :: string where
  "digits10 = ''0123456789''"

fun show_nat :: "nat \<Rightarrow> string" where
  "show_nat n = (if n < 10 then [digits10 ! n] else show_nat (n div 10) @ [digits10 ! (n mod 10)])"

declare show_nat.simps [simp del]

text \<open>
  \<open>int(s)\<close> in base 10: surrounding whitespace is ignored, one sign is allowed, and
  single underscores may separate digits. CPython refuses a text of more than 4300
  digits (its default limit on integer string conversion) with the same \<open>ValueError\<close> as
  a text that is not a number. \<open>None\<close> stands for the \<open>ValueError\<close>.
\<close>

definition is_digit :: "char \<Rightarrow> bool" where
  "is_digit c = (c \<in> set digits10)"

definition digit_val :: "char \<Rightarrow> nat" where
  "digit_val c = (of_char c :: nat) - 48"

fun digits_val :: "nat \<Rightarrow> string \<Rightarrow> nat option" where
  "digits_val acc [] = Some acc"
| "digits_val acc (c # cs) =
     (if is_digit c then digits_val (10 * acc + digit_val c) cs
      else if c = CHR ''_'' then
        (case cs of
           [] \<Rightarrow> None
         | d # ds \<Rightarrow> if is_digit d then digits_val (10 * acc + digit_val d) ds else None)
      else None)"

definition max_str_digits :: nat where
  "max_str_digits = 4300"

definition parse_digits :: "string \<Rightarrow> nat option" where
  "parse_digits s =
     (if length (filter is_digit s) > max_str_digits then None
      else (case s of
              [] \<Rightarrow> None
            | c # cs \<Rightarrow> if is_digit c then digits_val (digit_val c) cs else None))"

definition py_int :: "string \<Rightarrow> int option" where
  "py_int s =
     (case py_strip s of
        [] \<Rightarrow> None
      | c # cs \<Rightarrow>
          if c = CHR ''-'' then map_option (\<lambda>n. - int n) (parse_digits cs)
          else if c = CHR ''+'' then map_option int (parse_digits cs)
          else map_option int (parse_digits (c # cs)))"

text \<open>
  The values a caller can put into the parameter mapping. The program only ever asks a
  value for its \<open>str()\<close> text, its truth value, and (for the variant details) its entries,
  so a value that is neither \<open>None\<close>, a \<open>str\<close> nor a \<open>dict\<close> is kept abstract:
  \<open>PObj ty txt b\<close> is a value of the builtin type named \<open>ty\<close> (an \<open>int\<close>, \<open>float\<close>,
  \<open>bool\<close>, \<open>list\<close>, ...) whose \<open>str()\<close> is \<open>txt\<close> and whose truth value is \<open>b\<close>.
  A \<open>dict\<close> carries its \<open>str()\<close> text next to its entries, which have string keys.
\<close>

datatype pyval =
    PNone
  | PStr string
  | PDict string "(string \<times> pyval) list"
  | PObj string string bool

fun py_str :: "pyval \<Rightarrow> string" where
  "py_str PNone = ''None''"
| "py_str (PStr s) = s"
| "py_str (PDict txt es) = txt"
| "py_str (PObj ty txt b) = txt"

fun truthy :: "pyval \<Rightarrow> bool" where
  "truthy PNone = False"
| "truthy (PStr s) = (s \<noteq> [])"
| "truthy (PDict txt es) = (es \<noteq> [])"
| "truthy (PObj ty txt b) = b"

fun type_name :: "pyval \<Rightarrow> string" where
  "type_name PNone = ''NoneType''"
| "type_name (PStr s) = ''str''"
| "type_name (PDict txt es) = ''dict''"
| "type_name (PObj ty txt b) = ty"

text \<open>\<open>d.get(k, default)\<close> on a mapping with string keys.\<close>

definition dict_get :: "(string \<rightharpoonup> pyval) \<Rightarrow> string \<Rightarrow> pyval \<Rightarrow> pyval" where
  "dict_get d k dflt = (case d k of None \<Rightarrow> dflt | Some v \<Rightarrow> v)"

section \<open>Exceptions, the browser and the session\<close>

text \<open>
  The calls of \<open>logging\<close> have no effect on what the scripts return or on the browser, and
  are left out of the model.
\<close>

text \<open>
  The exception classes the two scripts tell apart: Playwright's \<open>TimeoutError\<close>,
  \<open>ValueError\<close>, and every other subclass of \<open>Exception\<close>. Each carries the text that
  \<open>str(e)\<close> gives.
\<close>

datatype exn = PlaywrightTimeoutError string | ValueError string | Exception string

fun exn_str :: "exn \<Rightarrow> string" where
  "exn_str (PlaywrightTimeoutError m) = m"
| "exn_str (ValueError m) = m"
| "exn_str (Exception m) = m"

fun is_timeout :: "exn \<Rightarrow> bool" where
  "is_timeout (PlaywrightTimeoutError m) = True"
| "is_timeout e = False"

definition attribute_error :: "pyval \<Rightarrow> string \<Rightarrow> exn" where
  "attribute_error v a =
     Exception ([CHR 0x27] @ type_name v @ [CHR 0x27] @ '' object has no attribute ''
                @ [CHR 0x27] @ a @ [CHR 0x27])"

text \<open>
  An element handle returned by \<open>query_selector_all\<close>. What its \<open>inner_text()\<close> gives
  (a text, or an exception) is a fixed attribute of the handle.
\<close>

datatype link = Link (handle: nat) (inner_text: "exn + string")

text \<open>
  The calls the scripts make on the Playwright API. A timeout argument is in
  milliseconds; \<open>Click sel None\<close> is a click without a timeout argument.
\<close>

datatype call =
    PlaywrightEnter
  | PlaywrightExit
  | Launch
  | NewPage
  | Goto string
  | Fill string pyval
  | Press string string
  | WaitForSelector string nat
  | Click string "nat option"
  | SelectOption string pyval
  | QuerySelectorAll string
  | PageInnerText string
  | LinkClick link
  | BrowserClose

text \<open>
  The target website and the browser are external: a \<open>site\<close> says, for the calls made so
  far and the next call, whether that call raises, and what the two calls with a result
  return. Any deterministic behaviour of the outside world is such a function.
\<close>

record site =
  raises :: "call list \<Rightarrow> call \<Rightarrow> exn option"
  query_result :: "call list \<Rightarrow> string \<Rightarrow> link list"
  text_result :: "call list \<Rightarrow> string \<Rightarrow> string"

text \<open>What the terminal shows: a printed line, or the prompt of \<open>input\<close> or \<open>getpass\<close>.\<close>

datatype out = Printed string | Prompt string | SecretPrompt string

text \<open>
  The state of one run: the browser calls made so far, the operator's remaining input
  lines, and the terminal output so far.
\<close>

record session =
  trace :: "call list"
  stdin :: "string list"
  console :: "out list"

text \<open>
  A statement either completes with a value, leaves the function through \<open>return\<close>, or
  raises.
\<close>

datatype 'a res = Val 'a | Return string | Raise exn

type_synonym 'a M = "session \<Rightarrow> 'a res \<times> session"

definition ret :: "'a \<Rightarrow> 'a M" where
  "ret x s = (Val x, s)"

definition return_stmt :: "string \<Rightarrow> 'a M" where
  "return_stmt r s = (Return r, s)"

definition raise :: "exn \<Rightarrow> 'a M" where
  "raise e s = (Raise e, s)"

definition bind :: "'a M \<Rightarrow> ('a \<Rightarrow> 'b M) \<Rightarrow> 'b M" where
  "bind m f s =
     (case m s of
        (Val x, s') \<Rightarrow> f x s'
      | (Return r, s') \<Rightarrow> (Return r, s')
      | (Raise e, s') \<Rightarrow> (Raise e, s'))"

definition seq :: "unit M \<Rightarrow> 'a M \<Rightarrow> 'a M" where
  "seq m n = bind m (\<lambda>_. n)"

text \<open>A block of statements.\<close>

fun block :: "unit M list \<Rightarrow> unit M" where
  "block [] = ret ()"
| "block (m # ms) = seq m (block ms)"

text \<open>\<open>try: m except PlaywrightTimeoutError: h\<close>\<close>

definition try_timeout :: "'a M \<Rightarrow> 'a M \<Rightarrow> 'a M" where
  "try_timeout m h s =
     (case m s of
        (Raise (PlaywrightTimeoutError msg), s') \<Rightarrow> h s'
      | r \<Rightarrow> r)"

text \<open>\<open>try: m except Exception as e: h e\<close>, and the bare \<open>except:\<close>\<close>

definition try_except :: "'a M \<Rightarrow> (exn \<Rightarrow> 'a M) \<Rightarrow> 'a M" where
  "try_except m h s =
     (case m s of
        (Raise e, s') \<Rightarrow> h e s'
      | r \<Rightarrow> r)"

text \<open>\<open>try: m except ValueError: h\<close>\<close>

definition try_value_error :: "'a M \<Rightarrow> 'a M \<Rightarrow> 'a M" where
  "try_value_error m h s =
     (case m s of
        (Raise (ValueError msg), s') \<Rightarrow> h s'
      | r \<Rightarrow> r)"

text \<open>
  A chain of nested \<open>try: a except: try: b except: ...\<close>: the alternatives are tried in
  order, and an exception of the last one is not caught.
\<close>

fun fallbacks :: "unit M list \<Rightarrow> unit M" where
  "fallbacks [] = ret ()"
| "fallbacks [m] = m"
| "fallbacks (m # n # ms) = try_except m (\<lambda>e. fallbacks (n # ms))"

text \<open>A call on the browser is recorded in the trace, whether it returns or raises.\<close>

definition perform :: "site \<Rightarrow> call \<Rightarrow> unit M" where
  "perform w c s =
     (case raises w (trace s) c of
        Some e \<Rightarrow> (Raise e, s\<lparr>trace := trace s @ [c]\<rparr>)
      | None \<Rightarrow> (Val (), s\<lparr>trace := trace s @ [c]\<rparr>))"

definition query_selector_all :: "site \<Rightarrow> string \<Rightarrow> link list M" where
  "query_selector_all w sel s =
     (case raises w (trace s) (QuerySelectorAll sel) of
        Some e \<Rightarrow> (Raise e, s\<lparr>trace := trace s @ [QuerySelectorAll sel]\<rparr>)
      | None \<Rightarrow> (Val (query_result w (trace s) sel), s\<lparr>trace := trace s @ [QuerySelectorAll sel]\<rparr>))"

definition page_inner_text :: "site \<Rightarrow> string \<Rightarrow> string M" where
  "page_inner_text w sel s =
     (case raises w (trace s) (PageInnerText sel) of
        Some e \<Rightarrow> (Raise e, s\<lparr>trace := trace s @ [PageInnerText sel]\<rparr>)
      | None \<Rightarrow> (Val (text_result w (trace s) sel), s\<lparr>trace := trace s @ [PageInnerText sel]\<rparr>))"

definition page_fill :: "site \<Rightarrow> string \<Rightarrow> pyval \<Rightarrow> unit M" where
  "page_fill w sel v = perform w (Fill sel v)"

definition page_press :: "site \<Rightarrow> string \<Rightarrow> string \<Rightarrow> unit M" where
  "page_press w sel k = perform w (Press sel k)"

definition page_click :: "site \<Rightarrow> string \<Rightarrow> nat option \<Rightarrow> unit M" where
  "page_click w sel t = perform w (Click sel t)"

definition page_select_option :: "site \<Rightarrow> string \<Rightarrow> pyval \<Rightarrow> unit M" where
  "page_select_option w sel v = perform w (SelectOption sel v)"

definition wait_for_selector :: "site \<Rightarrow> string \<Rightarrow> nat \<Rightarrow> unit M" where
  "wait_for_selector w sel t = perform w (WaitForSelector sel t)"

definition link_click :: "site \<Rightarrow> link \<Rightarrow> unit M" where
  "link_click w l = perform w (LinkClick l)"

definition browser_close :: "site \<Rightarrow> unit M" where
  "browser_close w = perform w BrowserClose"

text \<open>
  \<open>with sync_playwright() as p: body\<close>: the context is entered, and once entered it is
  left however the body ends; an exception of the exit replaces the body's outcome. The
  exit stops the Playwright driver, and with it every browser the driver launched.
\<close>

definition with_sync_playwright :: "site \<Rightarrow> 'a M \<Rightarrow> 'a M" where
  "with_sync_playwright w body s =
     (case perform w PlaywrightEnter s of
        (Val u, s1) \<Rightarrow>
          (case body s1 of
             (r, s2) \<Rightarrow>
               (case perform w PlaywrightExit s2 of
                  (Raise e, s3) \<Rightarrow> (Raise e, s3)
                | (x, s3) \<Rightarrow> (r, s3)))
      | (Return r, s1) \<Rightarrow> (Return r, s1)
      | (Raise e, s1) \<Rightarrow> (Raise e, s1))"

text \<open>\<open>f'text="{v}"'\<close>\<close>

definition text_selector :: "pyval \<Rightarrow> string" where
  \<open>text_selector v = ''text="'' @ py_str v @ ''"''\<close>

text \<open>\<open>v.get(k)\<close> and \<open>v[k]\<close> on a value that should be a \<open>dict\<close>.\<close>

fun py_get :: "pyval \<Rightarrow> string \<Rightarrow> pyval M" where
  "py_get (PDict txt es) k = ret (case map_of es k of None \<Rightarrow> PNone | Some v \<Rightarrow> v)"
| "py_get v k = raise (attribute_error v ''get'')"

fun py_getitem :: "pyval \<Rightarrow> string \<Rightarrow> pyval M" where
  "py_getitem (PDict txt es) k =
     (case map_of es k of
        None \<Rightarrow> raise (Exception ([CHR 0x27] @ k @ [CHR 0x27]))
      | Some v \<Rightarrow> ret v)"
| "py_getitem v k = raise (Exception ''object is not subscriptable'')"

section \<open>The programmatic variant\<close>

definition PRODUCT_CATEGORIES :: "string list" where
  "PRODUCT_CATEGORIES = [''racquet'', ''garment'', ''shoes'', ''other'']"

text \<open>
  The messages the tool yields to its host: a text message, or the JSON message with
  the fields \<open>success\<close> and \<open>message\<close>.
\<close>

datatype message = TextMessage string | JsonMessage bool string

definition required_fields :: "string list" where
  "required_fields = [''first_name'', ''last_name'', ''email'', ''phone'',
                      ''address'', ''city'', ''state'', ''postal_code'',
                      ''card_number'', ''card_expiration'', ''card_cvv'']"

text \<open>\<open>str(tool_parameters.get(k, d)).strip()\<close>\<close>

definition str_param :: "(string \<rightharpoonup> pyval) \<Rightarrow> string \<Rightarrow> pyval \<Rightarrow> pyval" where
  "str_param tp k dflt = PStr (py_strip (py_str (dict_get tp k dflt)))"

text \<open>
  \<open>_extract_parameters\<close>. The result is the dictionary \<open>params\<close>, or the dictionary with
  the single key \<open>error\<close>. Every required field is a key of \<open>params\<close>, so \<open>params[field]\<close>
  cannot raise; the lookup below reads an absent key as a false value.
\<close>

definition extract_parameters :: "(string \<rightharpoonup> pyval) \<Rightarrow> (string \<rightharpoonup> pyval)" where
  "extract_parameters tp =
     (let address = str_param tp ''address'' (PStr '''');
          params = [
            ''variant_details'' \<mapsto> dict_get tp ''variant_details'' (PDict ''{}'' []),
            ''first_name'' \<mapsto> str_param tp ''first_name'' (PStr ''''),
            ''last_name'' \<mapsto> str_param tp ''last_name'' (PStr ''''),
            ''email'' \<mapsto> str_param tp ''email'' (PStr ''''),
            ''phone'' \<mapsto> str_param tp ''phone'' (PStr ''''),
            ''address'' \<mapsto> address,
            ''city'' \<mapsto> str_param tp ''city'' (PStr ''''),
            ''state'' \<mapsto> str_param tp ''state'' (PStr ''''),
            ''postal_code'' \<mapsto> str_param tp ''postal_code'' (PStr ''''),
            ''country'' \<mapsto> str_param tp ''country'' (PStr ''United States''),
            ''card_number'' \<mapsto> str_param tp ''card_number'' (PStr ''''),
            ''card_expiration'' \<mapsto> str_param tp ''card_expiration'' (PStr ''''),
            ''card_cvv'' \<mapsto> str_param tp ''card_cvv'' (PStr ''''),
            ''billing_address'' \<mapsto> str_param tp ''billing_address'' address,
            ''coupon_code'' \<mapsto> dict_get tp ''coupon_code'' PNone,
            ''shipping_option'' \<mapsto> dict_get tp ''shipping_option'' PNone,
            ''gift_wrapping_message'' \<mapsto> dict_get tp ''gift_wrapping_message'' PNone];
          missing_fields = filter (\<lambda>field. \<not> truthy (dict_get params field PNone)) required_fields
      in if missing_fields \<noteq> []
         then [''error'' \<mapsto> PStr (''Missing required fields: '' @ join '', '' missing_fields)]
         else params)"

subsection \<open>The stages of the purchase flow\<close>

definition max_attempts :: nat where
  "max_attempts = 3"

definition search_input :: string where
  \<open>search_input = ''input[name="search"]''\<close>

definition product_links :: string where
  "product_links = ''div.product-container a.product-link''"

text \<open>The scan for a title that equals the item name when both are lower-cased.\<close>

fun find_exact_match :: "string \<Rightarrow> link list \<Rightarrow> link option" where
  "find_exact_match item_name [] = None"
| "find_exact_match item_name (l # ls) =
     (case inner_text l of
        Inl e \<Rightarrow> find_exact_match item_name ls
      | Inr t \<Rightarrow>
          if py_lower (py_strip t) = py_lower item_name then Some l
          else find_exact_match item_name ls)"

text \<open>
  The click on the exact match, or on \<open>links[0]\<close>; the caller has checked that the list
  is not empty.
\<close>

definition select_product :: "site \<Rightarrow> string \<Rightarrow> link list \<Rightarrow> unit M" where
  "select_product w item_name links =
     (case find_exact_match item_name links of
        Some l \<Rightarrow> link_click w l
      | None \<Rightarrow>
          (case links of
             [] \<Rightarrow> raise (Exception ''list index out of range'')
           | l0 # ls \<Rightarrow> link_click w l0))"

text \<open>
  One pass through the body of the search loop, \<open>attempts\<close> already incremented. The
  value is the new \<open>product_selected\<close>; \<open>False\<close> is the \<open>continue\<close>.
\<close>

definition search_attempt :: "site \<Rightarrow> string \<Rightarrow> nat \<Rightarrow> bool M" where
  "search_attempt w item_name attempts =
     bind (try_timeout
             (seq (page_fill w search_input (PStr item_name))
             (seq (page_press w search_input ''Enter'')
             (seq (wait_for_selector w product_links 10000)
                  (ret True))))
             (if attempts \<ge> max_attempts
              then seq (browser_close w)
                       (return_stmt ''Error: Product search failed after multiple attempts'')
              else ret False))
       (\<lambda>found.
          if \<not> found then ret False
          else bind (query_selector_all w product_links)
            (\<lambda>links.
               if links = [] then
                 (if attempts \<ge> max_attempts
                  then seq (browser_close w)
                           (return_stmt ''Error: No products found matching the search criteria'')
                  else ret False)
               else seq (select_product w item_name links) (ret True)))"

function search_loop :: "site \<Rightarrow> string \<Rightarrow> bool \<Rightarrow> nat \<Rightarrow> bool M" where
  "search_loop w item_name product_selected attempts s =
     (if \<not> product_selected \<and> attempts < max_attempts then
        (case search_attempt w item_name (attempts + 1) s of
           (Val sel, s') \<Rightarrow> search_loop w item_name sel (attempts + 1) s'
         | (Return r, s') \<Rightarrow> (Return r, s')
         | (Raise e, s') \<Rightarrow> (Raise e, s'))
      else (Val product_selected, s))"
  by pat_completeness auto
termination
  by (relation "measure (\<lambda>(w, item_name, product_selected, attempts, s). max_attempts - attempts)")
     auto

declare search_loop.simps [simp del]

definition search_for_product :: "site \<Rightarrow> string \<Rightarrow> unit M" where
  "search_for_product w item_name =
     bind (search_loop w item_name False 0)
       (\<lambda>product_selected.
          if \<not> product_selected
          then seq (browser_close w) (return_stmt ''Error: Unable to select a product'')
          else ret ())"

text \<open>\<open>if vd.get(k): page.click(f'text="{vd[k]}"', timeout=5000)\<close>\<close>

definition click_variant :: "site \<Rightarrow> pyval \<Rightarrow> string \<Rightarrow> unit M" where
  "click_variant w vd k =
     bind (py_get vd k)
       (\<lambda>v. if truthy v
             then bind (py_getitem vd k) (\<lambda>x. page_click w (text_selector x) (Some 5000))
             else ret ())"

definition fill_variant :: "site \<Rightarrow> pyval \<Rightarrow> string \<Rightarrow> string \<Rightarrow> unit M" where
  "fill_variant w vd k sel =
     bind (py_get vd k)
       (\<lambda>v. if truthy v
             then bind (py_getitem vd k) (\<lambda>x. page_fill w sel x)
             else ret ())"

definition variant_selection :: "site \<Rightarrow> string \<Rightarrow> pyval \<Rightarrow> unit M" where
  \<open>variant_selection w category vd =
     (if category = ''racquet'' then
        block [
          try_timeout (click_variant w vd ''size'') (ret ()),
          try_timeout (click_variant w vd ''string_type'') (ret ()),
          try_timeout (fill_variant w vd ''string_tension'' ''input[name="string_tension"]'') (ret ())]
      else if category \<in> set [''garment'', ''shoes''] then
        block [
          try_timeout (click_variant w vd ''size'') (ret ()),
          try_timeout (click_variant w vd ''color'') (ret ())]
      else
        bind (py_get vd ''option1'')
          (\<lambda>v. if truthy v
                then try_timeout
                       (bind (py_getitem vd ''option1'')
                          (\<lambda>x. page_fill w ''input[name="customOption"]'' x))
                       (ret ())
                else ret ()))\<close>

definition add_to_cart :: "site \<Rightarrow> unit M" where
  \<open>add_to_cart w =
     try_timeout (page_click w ''#addToCartButton'' (Some 5000))
       (try_timeout (page_click w ''button:has-text("Add to Cart")'' (Some 5000))
          (seq (browser_close w) (return_stmt ''Error: Add to Cart button not found'')))\<close>

definition close_popup :: "site \<Rightarrow> unit M" where
  "close_popup w =
     try_timeout
       (seq (wait_for_selector w ''button.close-popup'' 3000)
            (page_click w ''button.close-popup'' None))
       (ret ())"

definition cart_and_checkout :: "site \<Rightarrow> unit M" where
  \<open>cart_and_checkout w =
     try_except
       (seq
          (try_timeout
             (seq (wait_for_selector w ''a[href*="ViewCart"]'' 5000)
                  (page_click w ''a[href*="ViewCart"]'' None))
             (try_timeout (page_click w ''a:has-text("Cart")'' (Some 3000)) (ret ())))
          (try_timeout
             (seq (wait_for_selector w ''a[href*="Checkout"]'' 8000)
                  (page_click w ''a[href*="Checkout"]'' None))
             (try_timeout (page_click w ''button:has-text("Checkout")'' (Some 5000))
                (seq (browser_close w) (return_stmt ''Error: Checkout button not found'')))))
       (\<lambda>e. seq (browser_close w)
                 (return_stmt (''Error: Cart/checkout navigation failed: '' @ exn_str e)))\<close>

definition shipping_details ::
  "site \<Rightarrow> pyval \<Rightarrow> pyval \<Rightarrow> pyval \<Rightarrow> pyval \<Rightarrow> pyval \<Rightarrow> pyval \<Rightarrow> pyval \<Rightarrow> pyval \<Rightarrow> pyval \<Rightarrow> unit M" where
  \<open>shipping_details w first_name last_name email phone address city state postal_code country =
     try_except
       (block [
          fallbacks [page_fill w ''#firstName'' first_name,
                     page_fill w ''input[name="firstName"]'' first_name,
                     page_fill w ''[placeholder="First Name"]'' first_name],
          fallbacks [page_fill w ''#lastName'' last_name,
                     page_fill w ''input[name="lastName"]'' last_name,
                     page_fill w ''[placeholder="Last Name"]'' last_name],
          fallbacks [page_fill w ''#email'' email,
                     page_fill w ''input[name="email"]'' email,
                     page_fill w ''[placeholder="Email"]'' email],
          fallbacks [page_fill w ''#phone'' phone,
                     page_fill w ''input[name="phone"]'' phone,
                     page_fill w ''[placeholder="Phone"]'' phone],
          fallbacks [page_fill w ''#address'' address,
                     page_fill w ''input[name="address"]'' address,
                     page_fill w ''[placeholder="Address"]'' address],
          fallbacks [page_fill w ''#city'' city,
                     page_fill w ''input[name="city"]'' city,
                     page_fill w ''[placeholder="City"]'' city],
          fallbacks [page_select_option w ''#state'' state,
                     page_fill w ''#state'' state,
                     page_select_option w ''select[name="state"]'' state,
                     page_fill w ''input[name="state"]'' state,
                     ret ()],
          fallbacks [page_fill w ''#zip'' postal_code,
                     page_fill w ''input[name="zip"]'' postal_code,
                     page_fill w ''#postal_code'' postal_code,
                     page_fill w ''input[name="postal_code"]'' postal_code,
                     ret ()],
          fallbacks [page_select_option w ''#country'' country,
                     page_select_option w ''select[name="country"]'' country,
                     ret ()]])
       (\<lambda>e. ret ())\<close>

definition apply_coupon :: "site \<Rightarrow> pyval \<Rightarrow> unit M" where
  \<open>apply_coupon w coupon_code =
     (if truthy coupon_code then
        try_except
          (fallbacks [
             seq (page_fill w ''#couponCode'' coupon_code) (page_click w ''#applyCoupon'' None),
             seq (page_fill w ''input[name="couponCode"]'' coupon_code)
                 (page_click w ''button:has-text("Apply")'' None),
             ret ()])
          (\<lambda>e. ret ())
      else ret ())\<close>

definition select_shipping_option :: "site \<Rightarrow> pyval \<Rightarrow> unit M" where
  "select_shipping_option w shipping_option =
     (if truthy shipping_option
      then try_timeout (page_click w (text_selector shipping_option) None) (ret ())
      else ret ())"

definition gift_wrapping :: "site \<Rightarrow> pyval \<Rightarrow> unit M" where
  \<open>gift_wrapping w gift_wrapping_message =
     (if truthy gift_wrapping_message
      then try_timeout
             (seq (page_click w ''input[name="giftWrap"]'' None)
                  (page_fill w ''textarea[name="giftMessage"]'' gift_wrapping_message))
             (ret ())
      else ret ())\<close>

definition proceed_to_payment :: "site \<Rightarrow> unit M" where
  \<open>proceed_to_payment w =
     try_except
       (try_timeout (page_click w ''#continueToPayment'' (Some 5000))
          (try_timeout (page_click w ''button:has-text("Continue to Payment")'' (Some 5000))
             (try_timeout (page_click w ''button:has-text("Next")'' (Some 5000))
                (ret ()))))
       (\<lambda>e. ret ())\<close>

text \<open>\<open>card_expiration.split('/')\<close>; only a \<open>str\<close> has the method.\<close>

fun split_expiration :: "pyval \<Rightarrow> string list M" where
  "split_expiration (PStr s) = ret (split_on CHR ''/'' s)"
| "split_expiration v = raise (attribute_error v ''split'')"

definition fill_month_year :: "site \<Rightarrow> pyval \<Rightarrow> unit M" where
  "fill_month_year w card_expiration =
     bind (split_expiration card_expiration)
       (\<lambda>expiry.
          (case expiry of
             [m, y] \<Rightarrow>
               try_except
                 (seq (page_fill w ''#expMonth'' (PStr (py_strip m)))
                      (page_fill w ''#expYear'' (PStr (py_strip y))))
                 (\<lambda>e. ret ())
           | _ \<Rightarrow> ret ()))"

definition payment_details :: "site \<Rightarrow> pyval \<Rightarrow> pyval \<Rightarrow> pyval \<Rightarrow> pyval \<Rightarrow> pyval \<Rightarrow> unit M" where
  \<open>payment_details w card_number card_expiration card_cvv billing_address address =
     try_except
       (block [
          fallbacks [page_fill w ''#cardNumber'' card_number,
                     page_fill w ''input[name="cardNumber"]'' card_number,
                     page_fill w ''[placeholder="Card Number"]'' card_number],
          fallbacks [page_fill w ''#cardExp'' card_expiration,
                     page_fill w ''input[name="cardExp"]'' card_expiration,
                     page_fill w ''[placeholder="MM/YY"]'' card_expiration,
                     fill_month_year w card_expiration],
          fallbacks [page_fill w ''#cardCVV'' card_cvv,
                     page_fill w ''input[name="cardCVV"]'' card_cvv,
                     page_fill w ''[placeholder="CVV"]'' card_cvv],
          (if truthy billing_address \<and> billing_address \<noteq> address
           then fallbacks [page_fill w ''#billingAddress'' billing_address,
                           page_fill w ''input[name="billingAddress"]'' billing_address,
                           ret ()]
           else ret ())])
       (\<lambda>e. ret ())\<close>

definition place_order :: "site \<Rightarrow> unit M" where
  \<open>place_order w =
     try_except
       (try_timeout (page_click w ''#placeOrderButton'' (Some 5000))
          (try_timeout (page_click w ''button:has-text("Place Order")'' (Some 5000))
             (try_timeout (page_click w ''button:has-text("Complete Purchase")'' (Some 5000))
                (seq (browser_close w) (return_stmt ''Error: Place order button not found'')))))
       (\<lambda>e. seq (browser_close w)
                 (return_stmt (''Error: Failed to place order: '' @ exn_str e)))\<close>

text \<open>The wait for the confirmation; its value is \<open>confirmation_text\<close>.\<close>

definition wait_for_confirmation :: "site \<Rightarrow> string M" where
  \<open>wait_for_confirmation w =
     try_except
       (try_timeout
          (seq (wait_for_selector w ''.order-confirmation'' 15000)
               (page_inner_text w ''.order-confirmation''))
          (try_timeout
             (seq (wait_for_selector w ''text="Thank you for your order"'' 10000)
                  (ret ''Order placed successfully''))
             (try_timeout
                (seq (wait_for_selector w ''text="Order Confirmation"'' 10000)
                     (ret ''Order confirmed''))
                (seq (browser_close w)
                     (return_stmt ''Order may have been placed, but confirmation was not detected'')))))
       (\<lambda>e. seq (browser_close w)
                 (return_stmt ''Order may have been placed, but confirmation could not be verified''))\<close>

text \<open>
  The statements of \<open>_execute_purchase_flow\<close> inside the \<open>with\<close> block, in two parts: up
  to the click that places the order, and the whole block. The body of the function
  ends with a \<open>return\<close>, so the block never completes with a plain value.
\<close>

definition steps_to_place_order ::
  "site \<Rightarrow> string \<Rightarrow> string \<Rightarrow> string \<Rightarrow> (string \<rightharpoonup> pyval) \<Rightarrow> unit M" where
  "steps_to_place_order w website_url item_name category kwargs =
     (let variant_details = dict_get kwargs ''variant_details'' (PDict ''{}'' []);
          first_name = dict_get kwargs ''first_name'' (PStr '''');
          last_name = dict_get kwargs ''last_name'' (PStr '''');
          email = dict_get kwargs ''email'' (PStr '''');
          phone = dict_get kwargs ''phone'' (PStr '''');
          address = dict_get kwargs ''address'' (PStr '''');
          city = dict_get kwargs ''city'' (PStr '''');
          state = dict_get kwargs ''state'' (PStr '''');
          postal_code = dict_get kwargs ''postal_code'' (PStr '''');
          country = dict_get kwargs ''country'' (PStr ''United States'');
          card_number = dict_get kwargs ''card_number'' (PStr '''');
          card_expiration = dict_get kwargs ''card_expiration'' (PStr '''');
          card_cvv = dict_get kwargs ''card_cvv'' (PStr '''');
          billing_address = dict_get kwargs ''billing_address'' address;
          coupon_code = dict_get kwargs ''coupon_code'' PNone;
          shipping_option = dict_get kwargs ''shipping_option'' PNone;
          gift_wrapping_message = dict_get kwargs ''gift_wrapping_message'' PNone
      in block [
           perform w Launch,
           perform w NewPage,
           perform w (Goto website_url),
           search_for_product w item_name,
           variant_selection w category variant_details,
           add_to_cart w,
           close_popup w,
           cart_and_checkout w,
           shipping_details w first_name last_name email phone address city state postal_code country,
           apply_coupon w coupon_code,
           select_shipping_option w shipping_option,
           gift_wrapping w gift_wrapping_message,
           proceed_to_payment w,
           payment_details w card_number card_expiration card_cvv billing_address address,
           place_order w])"

definition purchase_steps ::
  "site \<Rightarrow> string \<Rightarrow> string \<Rightarrow> string \<Rightarrow> (string \<rightharpoonup> pyval) \<Rightarrow> string M" where
  "purchase_steps w website_url item_name category kwargs =
     seq (steps_to_place_order w website_url item_name category kwargs)
       (bind (wait_for_confirmation w)
          (\<lambda>confirmation_text.
             seq (browser_close w)
                 (return_stmt (''Purchase flow executed successfully: '' @ confirmation_text))))"

text \<open>
  \<open>_execute_purchase_flow\<close>: the \<open>with\<close> block inside the outermost \<open>try\<close>, whose handler
  turns every exception into an \<open>Error:\<close> message. The function returns a string on
  every path.
\<close>

definition execute_purchase_flow ::
  "site \<Rightarrow> string \<Rightarrow> string \<Rightarrow> string \<Rightarrow> (string \<rightharpoonup> pyval) \<Rightarrow> session \<Rightarrow> string \<times> session" where
  "execute_purchase_flow w website_url item_name category kwargs s =
     (case with_sync_playwright w (purchase_steps w website_url item_name category kwargs) s of
        (Val r, s') \<Rightarrow> (r, s')
      | (Return r, s') \<Rightarrow> (r, s')
      | (Raise e, s') \<Rightarrow> (''Error: '' @ exn_str e, s'))"

text \<open>
  \<open>_invoke\<close>: the messages it yields, in order, and the session afterwards. Nothing it
  calls can raise in this model (\<open>str()\<close> of a value is total and the executor catches
  every exception itself), so the handler of its own \<open>try\<close> has no path leading to it.
\<close>

definition website_url_of :: "(string \<rightharpoonup> pyval) \<Rightarrow> string" where
  "website_url_of tp =
     py_strip (py_str (dict_get tp ''website_url'' (PStr ''https://www.tennisexpress.com/'')))"

definition item_name_of :: "(string \<rightharpoonup> pyval) \<Rightarrow> string" where
  "item_name_of tp = py_strip (py_lower (py_str (dict_get tp ''item_name'' (PStr ''''))))"

definition category_of :: "(string \<rightharpoonup> pyval) \<Rightarrow> string" where
  "category_of tp = py_strip (py_lower (py_str (dict_get tp ''category'' (PStr ''''))))"

definition invoke :: "site \<Rightarrow> (string \<rightharpoonup> pyval) \<Rightarrow> session \<Rightarrow> message list \<times> session" where
  "invoke w tool_parameters s =
     (let website_url = website_url_of tool_parameters;
          item_name = item_name_of tool_parameters;
          category = category_of tool_parameters
      in if category \<notin> set PRODUCT_CATEGORIES then
           ([TextMessage (''Invalid category '' @ [CHR 0x27] @ category @ [CHR 0x27]
                          @ ''. Valid categories are: '' @ join '', '' PRODUCT_CATEGORIES)], s)
         else
           (let params = extract_parameters tool_parameters
            in if params ''error'' \<noteq> None then
                 ([TextMessage (py_str (dict_get params ''error'' PNone))], s)
               else
                 (case execute_purchase_flow w website_url item_name category params s of
                    (result, s') \<Rightarrow>
                      ([TextMessage ''Starting purchase flow...'',
                        JsonMessage (\<not> prefix ''Error:'' result) result], s'))))"

section \<open>The interactive variant\<close>

text \<open>
  \<open>input(prompt)\<close> shows the prompt and reads the operator's next line; at the end of the
  input it raises \<open>EOFError\<close>. \<open>getpass\<close> does the same without echo.
\<close>

definition py_input :: "string \<Rightarrow> string M" where
  "py_input prompt s =
     (case stdin s of
        [] \<Rightarrow> (Raise (Exception ''EOF when reading a line''),
               s\<lparr>console := console s @ [Prompt prompt]\<rparr>)
      | l # ls \<Rightarrow> (Val l, s\<lparr>stdin := ls, console := console s @ [Prompt prompt]\<rparr>))"

definition getpass :: "string \<Rightarrow> string M" where
  "getpass prompt s =
     (case stdin s of
        [] \<Rightarrow> (Raise (Exception ''EOF when reading a line''),
               s\<lparr>console := console s @ [SecretPrompt prompt]\<rparr>)
      | l # ls \<Rightarrow> (Val l, s\<lparr>stdin := ls, console := console s @ [SecretPrompt prompt]\<rparr>))"

definition print_line :: "string \<Rightarrow> unit M" where
  "print_line l s = (Val (), s\<lparr>console := console s @ [Printed l]\<rparr>)"

definition get_user_input :: "string \<Rightarrow> pyval \<Rightarrow> pyval M" where
  "get_user_input prompt dflt =
     bind (py_input prompt)
       (\<lambda>user_input. ret (if user_input \<noteq> [] then PStr (py_strip user_input) else dflt))"

definition get_password_input :: "string \<Rightarrow> string M" where
  "get_password_input prompt = getpass prompt"

text \<open>\<open>v.lower()\<close> and \<open>v.strip()\<close>; only a \<open>str\<close> has the methods.\<close>

fun str_lower :: "pyval \<Rightarrow> string M" where
  "str_lower (PStr s) = ret (py_lower s)"
| "str_lower v = raise (attribute_error v ''lower'')"

fun str_strip :: "pyval \<Rightarrow> string M" where
  "str_strip (PStr s) = ret (py_strip s)"
| "str_strip v = raise (attribute_error v ''strip'')"

definition ask_lower :: "string \<Rightarrow> string M" where
  "ask_lower prompt = bind (get_user_input prompt PNone) str_lower"

definition ask_strip :: "string \<Rightarrow> string M" where
  "ask_strip prompt = bind (get_user_input prompt PNone) str_strip"

text \<open>The loop that asks again until the category is one of the four.\<close>

function category_loop :: "string \<Rightarrow> string M" where
  "category_loop category s =
     (if category \<notin> set PRODUCT_CATEGORIES then
        (case ask_lower ''Invalid category. Please enter a valid category: '' s of
           (Val c, s') \<Rightarrow> category_loop c s'
         | (Return r, s') \<Rightarrow> (Return r, s')
         | (Raise e, s') \<Rightarrow> (Raise e, s'))
      else (Val category, s))"
  by pat_completeness auto
termination
  by (relation "measure (\<lambda>(category, s). length (stdin s))")
     (auto simp: ask_lower_def get_user_input_def py_input_def bind_def ret_def raise_def
           split: list.splits if_splits)

declare category_loop.simps [simp del]

text \<open>The variant details, as the dictionary's entries.\<close>

definition ask_variant_details :: "string \<Rightarrow> (string \<times> pyval) list M" where
  \<open>ask_variant_details category =
     (if category = ''racquet'' then
        bind (ask_strip ''Enter the desired size: '') (\<lambda>size.
        bind (ask_lower ''Enter the string type (e.g., 'polyester', 'multifilament'): '') (\<lambda>string_type.
        bind (ask_strip ''Enter the desired string name (e.g., 'Luxilon Alu Power 125'): '') (\<lambda>string_name.
        bind (ask_strip ''Enter the desired string tension (e.g., '55 lbs'): '') (\<lambda>string_tension.
        ret [(''size'', PStr size), (''string_type'', PStr string_type),
             (''string_name'', PStr string_name), (''string_tension'', PStr string_tension)]))))
      else if category \<in> set [''garment'', ''shoes''] then
        bind (ask_strip ''Enter the desired size (e.g., 'M' for garments or '9' for shoes): '') (\<lambda>size.
        bind (ask_strip ''Enter the desired color (e.g., 'black', 'red', 'blue'): '') (\<lambda>color.
        ret [(''size'', PStr size), (''color'', PStr color)]))
      else
        bind (ask_lower ''Does this product have any customizable options? (yes/no): '') (\<lambda>need_variant.
        if prefix ''y'' need_variant then
          bind (ask_strip ''Enter the customization details (or press Enter to skip): '') (\<lambda>option1.
          ret [(''option1'', if option1 \<noteq> [] then PStr option1 else PNone)])
        else ret []))\<close>

text \<open>\<open>variant_details[k]\<close> and \<open>variant_details.get(k)\<close> on the entries.\<close>

definition entry :: "(string \<times> pyval) list \<Rightarrow> string \<Rightarrow> pyval M" where
  "entry es k =
     (case map_of es k of
        None \<Rightarrow> raise (Exception ([CHR 0x27] @ k @ [CHR 0x27]))
      | Some v \<Rightarrow> ret v)"

definition entry_get :: "(string \<times> pyval) list \<Rightarrow> string \<Rightarrow> pyval" where
  "entry_get es k = (case map_of es k of None \<Rightarrow> PNone | Some v \<Rightarrow> v)"

subsection \<open>The search loop\<close>

text \<open>How a pass through the loop body ends: with \<open>continue\<close> and the item name to search next, or with the product selected.\<close>

datatype loop_ctl = Continue string | Selected

definition option_title :: "nat \<Rightarrow> link \<Rightarrow> string" where
  "option_title idx l =
     (case inner_text l of
        Inr t \<Rightarrow> py_strip t
      | Inl e \<Rightarrow> ''Product '' @ show_nat (idx + 1))"

text \<open>\<open>int(selection)\<close>\<close>

fun int_of :: "pyval \<Rightarrow> int M" where
  "int_of (PStr s) =
     (case py_int s of
        None \<Rightarrow> raise (ValueError (''invalid literal for int() with base 10: '' @ s))
      | Some k \<Rightarrow> ret k)"
| "int_of v = raise (Exception ''int() argument must be a string, a bytes-like object or a real number'')"

definition print_lines :: "string list \<Rightarrow> unit M" where
  "print_lines ls s = (Val (), s\<lparr>console := console s @ map Printed ls\<rparr>)"

text \<open>
  The branch without an exact match: the numbered list, the operator's choice, and the
  click on the chosen link.
\<close>

definition choose_from_list :: "site \<Rightarrow> string \<Rightarrow> link list \<Rightarrow> loop_ctl M" where
  "choose_from_list w item_name links =
     (let options = map (\<lambda>(idx, l). option_title idx l) (enumerate 0 links) in
      seq (print_line ''No exact match found. Please choose from the following options:'')
     (seq (print_lines (map (\<lambda>(idx, title). show_nat (idx + 1) @ ''. '' @ title) (enumerate 0 options)))
     (bind (get_user_input ''Enter the number corresponding to your desired product, or press Enter to search again: '' PNone)
        (\<lambda>selection.
           if \<not> truthy selection then
             bind (ask_lower ''Enter a new product name: '') (\<lambda>n. ret (Continue n))
           else
             try_value_error
               (bind (int_of selection)
                  (\<lambda>k. let selection_index = k - 1 in
                     if selection_index < 0 \<or> selection_index \<ge> int (length options) then
                       seq (print_line ''Invalid selection. Please try again.'')
                           (ret (Continue item_name))
                     else
                       seq (link_click w (links ! nat selection_index)) (ret Selected)))
               (seq (print_line ''Invalid input. Please try again.'')
                    (ret (Continue item_name)))))))"

text \<open>
  The selection from a non-empty result list: the scan for an exact match is the one of
  the programmatic variant; an element handle is a true value, so a match is clicked.
\<close>

definition interactive_select :: "site \<Rightarrow> string \<Rightarrow> link list \<Rightarrow> loop_ctl M" where
  "interactive_select w item_name links =
     (case find_exact_match item_name links of
        Some l \<Rightarrow> seq (link_click w l) (ret Selected)
      | None \<Rightarrow> choose_from_list w item_name links)"

text \<open>One pass through the body of the loop.\<close>

definition interactive_attempt :: "site \<Rightarrow> string \<Rightarrow> loop_ctl M" where
  "interactive_attempt w item_name =
     seq (page_fill w search_input (PStr item_name))
    (seq (page_press w search_input ''Enter'')
    (bind (try_timeout
             (seq (wait_for_selector w product_links 10000) (ret None))
             (bind (ask_lower ''No products found. Enter a new product name: '')
                (\<lambda>n. ret (Some n))))
       (\<lambda>renamed.
          case renamed of
            Some n \<Rightarrow> ret (Continue n)
          | None \<Rightarrow>
              bind (query_selector_all w product_links)
                (\<lambda>links.
                   if links = [] then
                     bind (ask_lower ''No products found. Enter a new product name: '')
                       (\<lambda>n. ret (Continue n))
                   else interactive_select w item_name links))))"

text \<open>
  \<open>while not product_selected\<close>: the loop has no bound of its own. Every pass that ends
  with \<open>continue\<close> has read a line of input, and the input is finite, so the loop ends.
\<close>

function interactive_search :: "site \<Rightarrow> string \<Rightarrow> unit M" where
  "interactive_search w item_name s =
     (case interactive_attempt w item_name s of
        (Val (Continue n), s') \<Rightarrow> interactive_search w n s'
      | (Val Selected, s') \<Rightarrow> (Val (), s')
      | (Return r, s') \<Rightarrow> (Return r, s')
      | (Raise e, s') \<Rightarrow> (Raise e, s'))"
  by pat_completeness auto
termination
  apply (relation "measure (\<lambda>(w, item_name, s). length (stdin s))")
   apply simp
  apply (clarsimp simp: interactive_attempt_def interactive_select_def choose_from_list_def seq_def bind_def ret_def
      raise_def try_timeout_def try_value_error_def page_fill_def page_press_def
      wait_for_selector_def query_selector_all_def link_click_def perform_def ask_lower_def
      get_user_input_def py_input_def print_line_def print_lines_def Let_def
      split: list.splits if_splits option.splits res.splits prod.splits exn.splits
             pyval.splits loop_ctl.splits)
  done

declare interactive_search.simps [simp del]

subsection \<open>The stages after the search\<close>

definition interactive_variant_selection ::
  "site \<Rightarrow> string \<Rightarrow> (string \<times> pyval) list \<Rightarrow> unit M" where
  \<open>interactive_variant_selection w category variant_details =
     (if category = ''racquet'' then
        block [
          try_timeout
            (bind (entry variant_details ''size'') (\<lambda>x. page_click w (text_selector x) None))
            (ret ()),
          try_timeout
            (bind (entry variant_details ''string_type'') (\<lambda>x. page_click w (text_selector x) None))
            (ret ()),
          try_timeout
            (bind (entry variant_details ''string_tension'')
               (\<lambda>x. page_fill w ''input[name="string_tension"]'' x))
            (ret ())]
      else if category \<in> set [''garment'', ''shoes''] then
        try_timeout
          (bind (entry variant_details ''size'') (\<lambda>x. page_click w (text_selector x) None))
          (ret ())
      else if truthy (entry_get variant_details ''option1'') then
        try_timeout
          (bind (entry variant_details ''option1'')
             (\<lambda>x. page_fill w ''input[name="customOption"]'' x))
          (ret ())
      else ret ())\<close>

definition interactive_add_to_cart :: "site \<Rightarrow> unit M" where
  "interactive_add_to_cart w =
     try_timeout (page_click w ''#addToCartButton'' None)
       (seq (browser_close w) (return_stmt ''Error: Add to Cart Failed''))"

definition interactive_checkout :: "site \<Rightarrow> unit M" where
  \<open>interactive_checkout w =
     try_timeout
       (block [
          wait_for_selector w ''a[href*="ViewCart"]'' 5000,
          page_click w ''a[href*="ViewCart"]'' None,
          wait_for_selector w ''a[href*="Checkout"]'' 10000,
          page_click w ''a[href*="Checkout"]'' None])
       (seq (browser_close w) (return_stmt ''Error: Checkout Navigation Failed''))\<close>

definition interactive_shipping where
  "interactive_shipping w first_name last_name email phone address city state postal_code country =
     block [
       page_fill w ''#firstName'' (PStr first_name),
       page_fill w ''#lastName'' (PStr last_name),
       page_fill w ''#email'' (PStr email),
       page_fill w ''#phone'' (PStr phone),
       page_fill w ''#address'' (PStr address),
       page_fill w ''#city'' (PStr city),
       try_timeout (page_select_option w ''#state'' (PStr state))
                   (page_fill w ''#state'' (PStr state)),
       page_fill w ''#zip'' (PStr postal_code),
       try_timeout (page_select_option w ''#country'' (PStr country)) (ret ())]"

definition interactive_coupon :: "site \<Rightarrow> pyval \<Rightarrow> unit M" where
  "interactive_coupon w coupon_code =
     (if truthy coupon_code then
        try_timeout
          (block [
             page_fill w ''#couponCode'' coupon_code,
             page_click w ''#applyCoupon'' None,
             wait_for_selector w ''.coupon-success'' 5000])
          (ret ())
      else ret ())"

definition interactive_proceed_to_payment :: "site \<Rightarrow> unit M" where
  "interactive_proceed_to_payment w =
     try_timeout (page_click w ''#continueToPayment'' None)
       (seq (browser_close w) (return_stmt ''Error: Unable to proceed to payment''))"

definition interactive_payment :: "site \<Rightarrow> string \<Rightarrow> string \<Rightarrow> string \<Rightarrow> string \<Rightarrow> string \<Rightarrow> unit M" where
  "interactive_payment w card_number card_expiration card_cvv billing_address address =
     block [
       page_fill w ''#cardNumber'' (PStr card_number),
       page_fill w ''#cardExp'' (PStr card_expiration),
       page_fill w ''#cardCVV'' (PStr card_cvv),
       (if billing_address \<noteq> [] \<and> billing_address \<noteq> address
        then page_fill w ''#billingAddress'' (PStr billing_address)
        else ret ())]"

definition interactive_place_order :: "site \<Rightarrow> unit M" where
  "interactive_place_order w =
     try_timeout (page_click w ''#placeOrderButton'' None)
       (seq (browser_close w) (return_stmt ''Error: Order Placement Failed''))"

definition interactive_confirmation :: "site \<Rightarrow> unit M" where
  "interactive_confirmation w =
     try_timeout
       (seq (wait_for_selector w ''.order-confirmation'' 15000)
            (bind (page_inner_text w ''.order-confirmation'')
               (\<lambda>confirmation_text. print_line (''Order Confirmation: '' @ confirmation_text))))
       (ret ())"

text \<open>An optional value that is asked for only after a \<open>yes\<close>.\<close>

definition ask_optional :: "string \<Rightarrow> string \<Rightarrow> pyval M" where
  "ask_optional question prompt =
     bind (ask_lower question)
       (\<lambda>response.
          if prefix ''y'' response then bind (ask_strip prompt) (\<lambda>v. ret (PStr v))
          else ret PNone)"

text \<open>
  The local variables that the prompts of \<open>dify_headless_purchase_flow\<close> fill and its
  browser automation reads, each under the name of the variable.
\<close>

record request =
  req_website_url :: string
  req_item_name :: string
  req_category :: string
  req_variant_details :: "(string \<times> pyval) list"
  req_first_name :: string
  req_last_name :: string
  req_email :: string
  req_phone :: string
  req_address :: string
  req_city :: string
  req_state :: string
  req_postal_code :: string
  req_country :: string
  req_card_number :: string
  req_card_expiration :: string
  req_card_cvv :: string
  req_billing_address :: string
  req_coupon_code :: pyval
  req_shipping_option :: pyval
  req_gift_wrapping_message :: pyval

text \<open>The prompts, in the order of the source (lines 40 to 94).\<close>

definition read_request :: "request M" where
  \<open>read_request =
     bind (bind (get_user_input ''Enter the website URL (default 'https://www.tennisexpress.com/'): ''
                   (PStr ''https://www.tennisexpress.com/'')) str_strip) (\<lambda>website_url.
     bind (ask_lower ''Enter the exact product name: '') (\<lambda>item_name.
     bind (bind (ask_lower ''What is the product category? (e.g., 'racquet', 'garment', 'shoes', 'other'): '')
             category_loop) (\<lambda>category.
     bind (ask_variant_details category) (\<lambda>variant_details.
     bind (ask_strip ''First Name: '') (\<lambda>first_name.
     bind (ask_strip ''Last Name: '') (\<lambda>last_name.
     bind (ask_strip ''Email (for shipping and confirmation): '') (\<lambda>email.
     bind (ask_strip ''Phone Number: '') (\<lambda>phone.
     bind (ask_strip ''Street Address: '') (\<lambda>address.
     bind (ask_strip ''City: '') (\<lambda>city.
     bind (ask_strip ''State (abbreviation or full name): '') (\<lambda>state.
     bind (ask_strip ''Zip/Postal Code: '') (\<lambda>postal_code.
     bind (ask_strip ''Country (default 'United States'): '') (\<lambda>country_in.
     let country = (if country_in \<noteq> [] then country_in else ''United States'') in
     bind (get_password_input ''Credit Card Number (use test card if demo): '') (\<lambda>card_number.
     bind (ask_strip ''Card Expiration Date (MM/YY): '') (\<lambda>card_expiration.
     bind (get_password_input ''Card CVV: '') (\<lambda>card_cvv.
     bind (ask_strip ''Billing Address (if different, otherwise press Enter to use shipping address): '') (\<lambda>billing_in.
     let billing_address = (if billing_in \<noteq> [] then billing_in else address) in
     bind (ask_optional ''Do you have a coupon code? (yes/no): '' ''Enter the coupon code: '') (\<lambda>coupon_code.
     bind (ask_optional ''Do you want to select a different shipping option? (yes/no): ''
             ''Enter the shipping option (e.g., 'expedited', 'in-store pickup'): '') (\<lambda>shipping_option.
     bind (ask_optional ''Do you want to add gift wrapping? (yes/no): ''
             ''Enter the gift wrapping message: '') (\<lambda>gift_wrapping_message.
     ret \<lparr>req_website_url = website_url,
          req_item_name = item_name,
          req_category = category,
          req_variant_details = variant_details,
          req_first_name = first_name,
          req_last_name = last_name,
          req_email = email,
          req_phone = phone,
          req_address = address,
          req_city = city,
          req_state = state,
          req_postal_code = postal_code,
          req_country = country,
          req_card_number = card_number,
          req_card_expiration = card_expiration,
          req_card_cvv = card_cvv,
          req_billing_address = billing_address,
          req_coupon_code = coupon_code,
          req_shipping_option = shipping_option,
          req_gift_wrapping_message = gift_wrapping_message\<rparr>))))))))))))))))))))\<close>

text \<open>
  The statements inside the \<open>with\<close> block of \<open>dify_headless_purchase_flow\<close>; the last two
  are \<open>browser.close()\<close> and the \<open>return\<close> of the success message.
\<close>

definition browser_automation :: "site \<Rightarrow> request \<Rightarrow> string M" where
  "browser_automation w r =
     seq (block [
            perform w Launch,
            perform w NewPage,
            perform w (Goto (req_website_url r)),
            interactive_search w (req_item_name r),
            interactive_variant_selection w (req_category r) (req_variant_details r),
            interactive_add_to_cart w,
            close_popup w,
            interactive_checkout w,
            interactive_shipping w (req_first_name r) (req_last_name r) (req_email r)
              (req_phone r) (req_address r) (req_city r) (req_state r) (req_postal_code r)
              (req_country r),
            interactive_coupon w (req_coupon_code r),
            select_shipping_option w (req_shipping_option r),
            gift_wrapping w (req_gift_wrapping_message r),
            interactive_proceed_to_payment w,
            interactive_payment w (req_card_number r) (req_card_expiration r) (req_card_cvv r)
              (req_billing_address r) (req_address r),
            interactive_place_order w,
            interactive_confirmation w])
         (seq (browser_close w)
              (return_stmt ''Purchase flow executed successfully (please verify your order on the website).''))"

text \<open>
  \<open>dify_headless_purchase_flow\<close>: the prompts, then the browser automation inside the
  \<open>try\<close>. Only the automation is guarded: an exception while the inputs are read leaves
  the function (\<open>Inl\<close>).
\<close>

definition purchase_dialogue :: "site \<Rightarrow> string M" where
  "purchase_dialogue w =
     bind read_request
       (\<lambda>r. try_except (with_sync_playwright w (browser_automation w r))
                         (\<lambda>e. return_stmt (''Error: '' @ exn_str e)))"

definition dify_headless_purchase_flow :: "site \<Rightarrow> session \<Rightarrow> (exn + string) \<times> session" where
  "dify_headless_purchase_flow w s =
     (case purchase_dialogue w s of
        (Val r, s') \<Rightarrow> (Inr r, s')
      | (Return r, s') \<Rightarrow> (Inr r, s')
      | (Raise e, s') \<Rightarrow> (Inl e, s'))"

section \<open>Notions used by the properties\<close>

subsection \<open>Inputs and result lists\<close>

text \<open>
  A required field is missing when the mapping has no entry for it, or when the text of
  its entry strips to the empty string.
\<close>

definition field_missing :: "(string \<rightharpoonup> pyval) \<Rightarrow> string \<Rightarrow> bool" where
  "field_missing tp f = (case tp f of None \<Rightarrow> True | Some v \<Rightarrow> py_strip (py_str v) = [])"

text \<open>
  A link's title, stripped and compared case-insensitively, equals the item name. A
  link whose \<open>inner_text()\<close> raises has no title.
\<close>

definition title_matches :: "string \<Rightarrow> link \<Rightarrow> bool" where
  "title_matches item_name l =
     (case inner_text l of
        Inl e \<Rightarrow> False
      | Inr t \<Rightarrow> py_lower (py_strip t) = py_lower item_name)"

text \<open>
  What the interactive variant shows when no title matches: a heading, one line for
  each result, numbered from 1, and the prompt for the number.
\<close>

definition numbered_options :: "link list \<Rightarrow> string list" where
  "numbered_options links =
     map (\<lambda>i. show_nat (i + 1) @ ''. '' @ option_title i (links ! i)) [0..<length links]"

definition listing :: "link list \<Rightarrow> out list" where
  "listing links =
     Printed ''No exact match found. Please choose from the following options:''
     # map Printed (numbered_options links)
     @ [Prompt ''Enter the number corresponding to your desired product, or press Enter to search again: '']"

subsection \<open>Histories of browser calls\<close>

text \<open>
  A call that returns or raises Playwright's timeout, and the click the programmatic
  variant makes for a variant detail: none when the detail is absent or a false value.
\<close>

definition returns_or_times_out :: "site \<Rightarrow> call list \<Rightarrow> call \<Rightarrow> bool" where
  "returns_or_times_out w h c = (case raises w h c of None \<Rightarrow> True | Some e \<Rightarrow> is_timeout e)"

definition variant_click :: "(string \<times> pyval) list \<Rightarrow> string \<Rightarrow> call list" where
  "variant_click es k =
     (if truthy (entry_get es k) then [Click (text_selector (entry_get es k)) (Some 5000)] else [])"

text \<open>
  A search attempt that produces no result links, seen from the site: one of the three
  calls of the search times out, or all three return and the query finds no link. The
  value is the list of the calls the attempt makes, from the history \<open>h\<close>; \<open>None\<close> when the
  attempt does not end that way.
\<close>

definition failed_search_calls :: "site \<Rightarrow> string \<Rightarrow> call list \<Rightarrow> call list option" where
  "failed_search_calls w item_name h =
     (let c1 = Fill search_input (PStr item_name);
          c2 = Press search_input ''Enter'';
          c3 = WaitForSelector product_links 10000;
          c4 = QuerySelectorAll product_links
      in case raises w h c1 of
           Some e \<Rightarrow> if is_timeout e then Some [c1] else None
         | None \<Rightarrow>
            (case raises w (h @ [c1]) c2 of
               Some e \<Rightarrow> if is_timeout e then Some [c1, c2] else None
             | None \<Rightarrow>
                (case raises w (h @ [c1, c2]) c3 of
                   Some e \<Rightarrow> if is_timeout e then Some [c1, c2, c3] else None
                 | None \<Rightarrow>
                    (case raises w (h @ [c1, c2, c3]) c4 of
                       Some e \<Rightarrow> None
                     | None \<Rightarrow>
                         if query_result w (h @ [c1, c2, c3]) product_links = []
                         then Some [c1, c2, c3, c4] else None))))"

text \<open>
  \<open>n\<close> such attempts in a row, and the calls they make.
\<close>

fun failed_searches :: "site \<Rightarrow> string \<Rightarrow> nat \<Rightarrow> call list \<Rightarrow> call list option" where
  "failed_searches w item_name 0 h = Some []"
| "failed_searches w item_name (Suc n) h =
     (case failed_search_calls w item_name h of
        None \<Rightarrow> None
      | Some cs \<Rightarrow>
          (case failed_searches w item_name n (h @ cs) of
             None \<Rightarrow> None
           | Some ds \<Rightarrow> Some (cs @ ds)))"

text \<open>
  The number of search attempts in a history: each one begins by filling the search
  field.
\<close>

fun is_search_fill :: "call \<Rightarrow> bool" where
  "is_search_fill (Fill sel v) = (sel = search_input)"
| "is_search_fill c = False"

definition search_attempts :: "call list \<Rightarrow> nat" where
  "search_attempts h = length (filter is_search_fill h)"

text \<open>
  The two messages of a search that failed for good.
\<close>

definition search_failure_messages :: "string set" where
  "search_failure_messages = {''Error: Product search failed after multiple attempts'',
                              ''Error: No products found matching the search criteria''}"

text \<open>
  The three waits for a confirmation, in the order the programmatic variant makes them.
\<close>

definition confirmation_waits :: "call list" where
  \<open>confirmation_waits =
     [WaitForSelector ''.order-confirmation'' 15000,
      WaitForSelector ''text="Thank you for your order"'' 10000,
      WaitForSelector ''text="Order Confirmation"'' 10000]\<close>

text \<open>
  A computation that adds \<open>k\<close> search attempts to the history, however it ends.
\<close>

definition adds_searches :: "nat \<Rightarrow> 'a M \<Rightarrow> bool" where
  "adds_searches k m = (\<forall>s. search_attempts (trace (snd (m s))) = search_attempts (trace s) + k)"

text \<open>
  A computation that only appends to the history of browser calls; one whose first call
  is \<open>c\<close>; and one that, when its first call \<open>c\<close> returns, calls \<open>d\<close> next.
\<close>

definition extends :: "'a M \<Rightarrow> bool" where
  "extends m = (\<forall>s. prefix (trace s) (trace (snd (m s))))"

definition begins_with :: "call \<Rightarrow> 'a M \<Rightarrow> bool" where
  "begins_with c m = (\<forall>s. prefix (trace s @ [c]) (trace (snd (m s))))"

definition then_calls :: "site \<Rightarrow> call \<Rightarrow> call \<Rightarrow> 'a M \<Rightarrow> bool" where
  "then_calls w c d m =
     (\<forall>s. raises w (trace s) c = None \<longrightarrow> prefix (trace s @ [c, d]) (trace (snd (m s))))"

text \<open>
  Whether a browser launched by the script is still running after a history of calls.
  \<open>launch\<close> starts one when it returns; \<open>browser.close()\<close> ends it when it returns; and
  so does the exit of the \<open>with sync_playwright()\<close> block when it returns, which stops the
  Playwright driver and with it every browser the driver launched. A call that raises
  leaves the browser as it was.
\<close>

definition browser_step :: "site \<Rightarrow> call list \<Rightarrow> call \<Rightarrow> bool \<Rightarrow> bool" where
  "browser_step w h c b =
     (case c of
        Launch \<Rightarrow> (if raises w h Launch = None then True else b)
      | BrowserClose \<Rightarrow> (if raises w h BrowserClose = None then False else b)
      | PlaywrightExit \<Rightarrow> (if raises w h PlaywrightExit = None then False else b)
      | _ \<Rightarrow> b)"

fun browser_after :: "site \<Rightarrow> call list \<Rightarrow> bool \<Rightarrow> call list \<Rightarrow> bool" where
  "browser_after w h b [] = b"
| "browser_after w h b (c # cs) = browser_after w (h @ [c]) (browser_step w h c b) cs"

definition browser_open :: "site \<Rightarrow> call list \<Rightarrow> bool" where
  "browser_open w h = browser_after w [] False h"

text \<open>
  A computation that leaves through \<open>return\<close> only with the browser closed, and one that
  makes no browser call.
\<close>

definition closes_before_return :: "site \<Rightarrow> 'a M \<Rightarrow> bool" where
  "closes_before_return w m =
     (\<forall>s r s'. m s = (Return r, s') \<longrightarrow> \<not> browser_open w (trace s'))"

definition silent :: "'a M \<Rightarrow> bool" where
  "silent m = (\<forall>s. trace (snd (m s)) = trace s)"

text \<open>
  The calls that start the browser and load the page, and the four calls of one search.
  \<open>browser_starts\<close> says that the first four return, from the history \<open>h\<close>;
  \<open>search_finds\<close> that the four calls of a search return and that the query gives the
  result list \<open>links\<close>.
\<close>

definition start_calls :: "string \<Rightarrow> call list" where
  "start_calls website_url = [PlaywrightEnter, Launch, NewPage, Goto website_url]"

definition browser_starts :: "site \<Rightarrow> call list \<Rightarrow> string \<Rightarrow> bool" where
  "browser_starts w h website_url =
     (raises w h PlaywrightEnter = None
      \<and> raises w (h @ [PlaywrightEnter]) Launch = None
      \<and> raises w (h @ [PlaywrightEnter, Launch]) NewPage = None
      \<and> raises w (h @ [PlaywrightEnter, Launch, NewPage]) (Goto website_url) = None)"

definition search_calls :: "string \<Rightarrow> call list" where
  "search_calls item_name =
     [Fill search_input (PStr item_name), Press search_input ''Enter'',
      WaitForSelector product_links 10000, QuerySelectorAll product_links]"

definition search_finds :: "site \<Rightarrow> string \<Rightarrow> call list \<Rightarrow> link list \<Rightarrow> bool" where
  "search_finds w item_name h links =
     (let c1 = Fill search_input (PStr item_name);
          c2 = Press search_input ''Enter'';
          c3 = WaitForSelector product_links 10000;
          c4 = QuerySelectorAll product_links
      in raises w h c1 = None
         \<and> raises w (h @ [c1]) c2 = None
         \<and> raises w (h @ [c1, c2]) c3 = None
         \<and> raises w (h @ [c1, c2, c3]) c4 = None
         \<and> query_result w (h @ [c1, c2, c3]) product_links = links)"

text \<open>
  The passes of the interactive search loop that end with \<open>continue\<close>: after \<open>n\<close> of them
  in a row, the item name that is searched next and the session. \<open>None\<close> when one of the
  \<open>n\<close> passes ends in another way.
\<close>

fun continued_passes :: "site \<Rightarrow> nat \<Rightarrow> string \<Rightarrow> session \<Rightarrow> (string \<times> session) option" where
  "continued_passes w 0 item_name s = Some (item_name, s)"
| "continued_passes w (Suc n) item_name s =
     (case interactive_attempt w item_name s of
        (Val (Continue item_name'), s') \<Rightarrow> continued_passes w n item_name' s'
      | _ \<Rightarrow> None)"

text \<open>
  The session in which the interactive search loop is entered: the prompts have been
  answered, the browser has started and the page is loaded.
\<close>

definition search_entry :: "request \<Rightarrow> session \<Rightarrow> session" where
  "search_entry rq s =
     (snd (read_request s))\<lparr>trace := trace s @ start_calls (req_website_url rq)\<rparr>"

text \<open>
  The session after a pass that searched, listed the results, read the operator's line
  and printed a notice instead of clicking.
\<close>

definition declined :: "string \<Rightarrow> link list \<Rightarrow> string list \<Rightarrow> string \<Rightarrow> session \<Rightarrow> session" where
  "declined item_name links rest notice u =
     u\<lparr>trace := trace u @ search_calls item_name,
       stdin := rest,
       console := console u @ listing links @ [Printed notice]\<rparr>"

text \<open>
  A session that continues another: the browser calls and the terminal output of the
  first are the beginning of those of the second. And a computation whose final session
  always continues the one it starts from.
\<close>

definition follows :: "session \<Rightarrow> session \<Rightarrow> bool" where
  "follows s s' = (prefix (trace s) (trace s') \<and> prefix (console s) (console s'))"

definition grows :: "'a M \<Rightarrow> bool" where
  "grows m = (\<forall>s. follows s (snd (m s)))"

text \<open>
  A flow whose final session is \<open>final\<close> goes round the interactive search loop again from
  the session \<open>u\<close>: its next browser call is the fill of the search field with the same
  item name, nothing that was shown is lost, and when that search finds the non-empty
  list \<open>links\<close> without an exact match, the list and the prompt are shown again.
\<close>

definition asks_again :: "site \<Rightarrow> string \<Rightarrow> session \<Rightarrow> link list \<Rightarrow> session \<Rightarrow> bool" where
  "asks_again w item_name u links final =
     (prefix (trace u @ [Fill search_input (PStr item_name)]) (trace final)
      \<and> prefix (console u) (console final)
      \<and> (search_finds w item_name (trace u) links \<and> links \<noteq> []
            \<and> \<not> (\<exists>l \<in> set links. title_matches item_name l)
          \<longrightarrow> prefix (console u @ listing links) (console final)))"

subsection \<open>Concrete sessions, sites and requests\<close>

text \<open>
  The session before anything has happened.
\<close>

definition session0 :: session where
  "session0 = \<lparr>trace = [], stdin = [], console = []\<rparr>"

text \<open>
  A site on which no call raises, no link is found and every text is empty.
\<close>

definition quiet_site :: site where
  "quiet_site = \<lparr>raises = (\<lambda>h c. None), query_result = (\<lambda>h sel. []), text_result = (\<lambda>h sel. [])\<rparr>"

text \<open>
  A shop on which every call returns, with two products and a confirmation text.
\<close>

definition shop :: site where
  "shop = \<lparr>raises = (\<lambda>h c. None),
           query_result = (\<lambda>h sel. [Link 0 (Inr ''Wilson Clash 100''),
                                      Link 1 (Inr '' Wilson Pro Staff 97 '')]),
           text_result = (\<lambda>h sel. ''Order 1001 confirmed'')\<rparr>"

text \<open>
  A complete request for a racquet; the phone number is given as an integer.
\<close>

definition order_form :: "string \<rightharpoonup> pyval" where
  "order_form = [
     ''item_name'' \<mapsto> PStr ''Wilson Pro Staff 97'',
     ''category'' \<mapsto> PStr ''Racquet'',
     ''variant_details'' \<mapsto>
        PDict ''{...}'' [(''size'', PStr ''27in''), (''string_tension'', PStr ''55 lbs'')],
     ''first_name'' \<mapsto> PStr ''Ann'',
     ''last_name'' \<mapsto> PStr ''Lee'',
     ''email'' \<mapsto> PStr ''ann@example.org'',
     ''phone'' \<mapsto> PObj ''int'' ''5550100'' True,
     ''address'' \<mapsto> PStr ''1 Main St'',
     ''city'' \<mapsto> PStr ''Springfield'',
     ''state'' \<mapsto> PStr ''IL'',
     ''postal_code'' \<mapsto> PStr ''62701'',
     ''card_number'' \<mapsto> PStr ''4111111111111111'',
     ''card_expiration'' \<mapsto> PStr ''12/30'',
     ''card_cvv'' \<mapsto> PStr ''123'']"

text \<open>
  The same request with a blank item name.
\<close>

definition blank_item_form :: "string \<rightharpoonup> pyval" where
  "blank_item_form = order_form(''item_name'' \<mapsto> PStr ''  '')"

text \<open>
  A request with a valid category in which most required fields are absent or blank; the
  phone is \<open>None\<close>, whose text is not blank.
\<close>

definition sparse_form :: "string \<rightharpoonup> pyval" where
  "sparse_form = [
     ''category'' \<mapsto> PStr '' Shoes'',
     ''first_name'' \<mapsto> PStr ''Ann'',
     ''email'' \<mapsto> PStr ''  '',
     ''phone'' \<mapsto> PNone]"

text \<open>
  A request for a category that is not sold.
\<close>

definition balls_form :: "string \<rightharpoonup> pyval" where
  "balls_form = [''category'' \<mapsto> PStr ''Balls'', ''first_name'' \<mapsto> PStr ''Ann'']"

text \<open>
  A result list in which the second and the third title match, the first does not.
\<close>

definition results :: "link list" where
  "results = [Link 0 (Inr ''Wilson Clash 100''),
              Link 1 (Inr '' Wilson Pro Staff 97 ''),
              Link 2 (Inr ''WILSON PRO STAFF 97'')]"

text \<open>
  Two results, the second without a readable title, and an operator who types 2.
\<close>

definition two_results :: "link list" where
  "two_results = [Link 7 (Inr ''Wilson Clash 100''), Link 8 (Inl (Exception ''detached''))]"

definition typed_two :: session where
  "typed_two = \<lparr>trace = [], stdin = [''2 '', ''rest''], console = []\<rparr>"

text \<open>
  A site whose address does not resolve: \<open>page.goto\<close> raises, every other call returns.
\<close>

definition unreachable_site :: site where
  "unreachable_site =
     \<lparr>raises = (\<lambda>h c. case c of Goto u \<Rightarrow> Some (Exception ''net::ERR_NAME_NOT_RESOLVED'') | _ \<Rightarrow> None),
      query_result = (\<lambda>h sel. []),
      text_result = (\<lambda>h sel. [])\<rparr>"

text \<open>
  The answers of an operator who buys a garment, and the details the answers give.
\<close>

definition garment_answers :: "string list" where
  "garment_answers = ['''', ''Court Shirt'', ''garment'', ''M'', ''red'',
     ''Ann'', ''Lee'', ''ann@example.org'', ''5550100'', ''1 Main St'', ''Springfield'', ''IL'',
     ''62701'', ''USA'', ''4111111111111111'', ''12/30'', ''123'', ''1 Main St'',
     ''no'', ''no'', ''no'']"

definition garment_details :: "(string \<times> pyval) list" where
  "garment_details = [(''size'', PStr ''M''), (''color'', PStr ''red'')]"

text \<open>
  A site on which every click times out.
\<close>

definition slow_site :: site where
  "slow_site = \<lparr>raises = (\<lambda>h c. case c of Click sel t \<Rightarrow> Some (PlaywrightTimeoutError ''Timeout exceeded'') | _ \<Rightarrow> None),
      query_result = (\<lambda>h sel. []),
      text_result = (\<lambda>h sel. [])\<rparr>"

text \<open>
  A shop without products: the result links do not appear in time during the first two
  searches, and the third search finds none. And the calls of the three searches.
\<close>

definition empty_shop :: site where
  "empty_shop =
     \<lparr>raises = (\<lambda>h c. if c = WaitForSelector product_links 10000 \<and> length h < 10
                        then Some (PlaywrightTimeoutError ''Timeout 10000ms exceeded.'') else None),
      query_result = (\<lambda>h sel. []),
      text_result = (\<lambda>h sel. [])\<rparr>"

definition three_failed_searches :: "call list" where
  "three_failed_searches =
     [Fill search_input (PStr ''clash 100''), Press search_input ''Enter'',
      WaitForSelector product_links 10000,
      Fill search_input (PStr ''clash 100''), Press search_input ''Enter'',
      WaitForSelector product_links 10000,
      Fill search_input (PStr ''clash 100''), Press search_input ''Enter'',
      WaitForSelector product_links 10000, QuerySelectorAll product_links]"

text \<open>
  A shop that takes the order and never shows a confirmation.
\<close>

definition silent_shop :: site where
  "silent_shop =
     \<lparr>raises = (\<lambda>h c. if c \<in> set confirmation_waits
                        then Some (PlaywrightTimeoutError ''Timeout exceeded.'') else None),
      query_result = (\<lambda>h sel. [Link 0 (Inr ''Wilson Clash 100'')]),
      text_result = (\<lambda>h sel. [])\<rparr>"

text \<open>
  The request that the answers of the garment buyer make, and a shop with that one
  product whose add-to-cart button never becomes clickable.
\<close>

definition garment_request :: request where
  "garment_request =
     \<lparr>req_website_url = ''https://www.tennisexpress.com/'',
      req_item_name = ''court shirt'',
      req_category = ''garment'',
      req_variant_details = garment_details,
      req_first_name = ''Ann'',
      req_last_name = ''Lee'',
      req_email = ''ann@example.org'',
      req_phone = ''5550100'',
      req_address = ''1 Main St'',
      req_city = ''Springfield'',
      req_state = ''IL'',
      req_postal_code = ''62701'',
      req_country = ''USA'',
      req_card_number = ''4111111111111111'',
      req_card_expiration = ''12/30'',
      req_card_cvv = ''123'',
      req_billing_address = ''1 Main St'',
      req_coupon_code = PNone,
      req_shipping_option = PNone,
      req_gift_wrapping_message = PNone\<rparr>"

definition stuck_cart_shop :: site where
  "stuck_cart_shop =
     \<lparr>raises = (\<lambda>h c. if c = Click ''#addToCartButton'' None
                        then Some (PlaywrightTimeoutError ''Timeout 30000ms exceeded.'') else None),
      query_result = (\<lambda>h sel. [Link 3 (Inr ''Court Shirt'')]),
      text_result = (\<lambda>h sel. [])\<rparr>"

section \<open>Properties\<close>

subsection \<open>Evaluation and helper lemmas\<close>

lemmas monad_defs = ret_def return_stmt_def raise_def bind_def seq_def try_timeout_def
  try_except_def try_value_error_def perform_def query_selector_all_def page_inner_text_def
  page_fill_def page_press_def page_click_def page_select_option_def wait_for_selector_def
  link_click_def browser_close_def with_sync_playwright_def

lemmas string_defs = py_strip_def py_lower_def lower_char_def is_upper_def is_space_def

lemmas stage_defs = steps_to_place_order_def purchase_steps_def search_for_product_def
  search_attempt_def select_product_def variant_selection_def click_variant_def
  fill_variant_def add_to_cart_def close_popup_def cart_and_checkout_def shipping_details_def
  apply_coupon_def select_shipping_option_def gift_wrapping_def proceed_to_payment_def
  payment_details_def place_order_def wait_for_confirmation_def text_selector_def
  max_attempts_def search_input_def product_links_def

lemmas request_defs = extract_parameters_def str_param_def dict_get_def Let_def
  required_fields_def website_url_of_def item_name_of_def category_of_def
  PRODUCT_CATEGORIES_def

lemma py_strip_Nil [simp]: "py_strip [] = []"
  by (simp add: py_strip_def)

lemma truthy_str_param: "truthy (str_param tp f (PStr [])) = (\<not> field_missing tp f)"
  by (simp add: str_param_def field_missing_def dict_get_def split: option.splits)

lemma params_required:
  "f \<in> set required_fields \<Longrightarrow>
   (\<not> truthy (dict_get [
            ''variant_details'' \<mapsto> vd,
            ''first_name'' \<mapsto> str_param tp ''first_name'' (PStr ''''),
            ''last_name'' \<mapsto> str_param tp ''last_name'' (PStr ''''),
            ''email'' \<mapsto> str_param tp ''email'' (PStr ''''),
            ''phone'' \<mapsto> str_param tp ''phone'' (PStr ''''),
            ''address'' \<mapsto> str_param tp ''address'' (PStr ''''),
            ''city'' \<mapsto> str_param tp ''city'' (PStr ''''),
            ''state'' \<mapsto> str_param tp ''state'' (PStr ''''),
            ''postal_code'' \<mapsto> str_param tp ''postal_code'' (PStr ''''),
            ''country'' \<mapsto> co,
            ''card_number'' \<mapsto> str_param tp ''card_number'' (PStr ''''),
            ''card_expiration'' \<mapsto> str_param tp ''card_expiration'' (PStr ''''),
            ''card_cvv'' \<mapsto> str_param tp ''card_cvv'' (PStr ''''),
            ''billing_address'' \<mapsto> ba,
            ''coupon_code'' \<mapsto> cc,
            ''shipping_option'' \<mapsto> so,
            ''gift_wrapping_message'' \<mapsto> gw] f PNone)) = field_missing tp f"
  unfolding required_fields_def dict_get_def
  by (auto simp: truthy_str_param)

text \<open>The list the code computes is the list of the fields that are missing.\<close>

lemma missing_fields_eq:
  "filter (\<lambda>field. \<not> truthy (dict_get [
            ''variant_details'' \<mapsto> vd,
            ''first_name'' \<mapsto> str_param tp ''first_name'' (PStr ''''),
            ''last_name'' \<mapsto> str_param tp ''last_name'' (PStr ''''),
            ''email'' \<mapsto> str_param tp ''email'' (PStr ''''),
            ''phone'' \<mapsto> str_param tp ''phone'' (PStr ''''),
            ''address'' \<mapsto> str_param tp ''address'' (PStr ''''),
            ''city'' \<mapsto> str_param tp ''city'' (PStr ''''),
            ''state'' \<mapsto> str_param tp ''state'' (PStr ''''),
            ''postal_code'' \<mapsto> str_param tp ''postal_code'' (PStr ''''),
            ''country'' \<mapsto> co,
            ''card_number'' \<mapsto> str_param tp ''card_number'' (PStr ''''),
            ''card_expiration'' \<mapsto> str_param tp ''card_expiration'' (PStr ''''),
            ''card_cvv'' \<mapsto> str_param tp ''card_cvv'' (PStr ''''),
            ''billing_address'' \<mapsto> ba,
            ''coupon_code'' \<mapsto> cc,
            ''shipping_option'' \<mapsto> so,
            ''gift_wrapping_message'' \<mapsto> gw] field PNone)) required_fields
   = filter (field_missing tp) required_fields"
  by (rule filter_cong[OF refl]) (rule params_required)

lemma extract_parameters_missing:
  "filter (field_missing tp) required_fields \<noteq> [] \<Longrightarrow>
   extract_parameters tp =
     [''error'' \<mapsto> PStr (''Missing required fields: ''
                          @ join '', '' (filter (field_missing tp) required_fields))]"
  unfolding extract_parameters_def Let_def missing_fields_eq by simp

lemma extract_parameters_complete:
  "filter (field_missing tp) required_fields = [] \<Longrightarrow> extract_parameters tp ''error'' = None"
  unfolding extract_parameters_def Let_def missing_fields_eq by simp

lemma order_form_complete: "extract_parameters order_form ''error'' = None"
  by (simp add: request_defs order_form_def string_defs)

lemma order_form_category: "category_of order_form \<in> set PRODUCT_CATEGORIES"
  by (simp add: request_defs order_form_def string_defs)

lemma find_exact_match_None:
  "(find_exact_match item_name links = None) = (\<not> (\<exists>l \<in> set links. title_matches item_name l))"
  by (induction links) (auto simp: title_matches_def split: sum.splits)

lemma find_exact_match_first:
  "\<exists>l \<in> set links. title_matches item_name l \<Longrightarrow>
   \<exists>i < length links. find_exact_match item_name links = Some (links ! i)
      \<and> title_matches item_name (links ! i)
      \<and> (\<forall>j < i. \<not> title_matches item_name (links ! j))"
proof (induction links)
  case Nil
  then show ?case by simp
next
  case (Cons l ls)
  show ?case
  proof (cases "title_matches item_name l")
    case True
    then have "find_exact_match item_name (l # ls) = Some ((l # ls) ! 0)"
      by (auto simp: title_matches_def split: sum.splits)
    with True show ?thesis by (intro exI[of _ 0]) simp
  next
    case False
    with Cons.prems have "\<exists>l \<in> set ls. title_matches item_name l" by auto
    from Cons.IH[OF this] obtain i where i: "i < length ls"
      "find_exact_match item_name ls = Some (ls ! i)" "title_matches item_name (ls ! i)"
      "\<forall>j < i. \<not> title_matches item_name (ls ! j)" by blast
    from False have "find_exact_match item_name (l # ls) = find_exact_match item_name ls"
      by (auto simp: title_matches_def split: sum.splits)
    with i False show ?thesis
      by (intro exI[of _ "Suc i"]) (auto simp: less_Suc_eq_0_disj)
  qed
qed

lemma snd_perform: "snd (perform w c s) = s\<lparr>trace := trace s @ [c]\<rparr>"
  by (simp add: perform_def split: option.splits)

lemma snd_click_selected:
  "snd (seq (link_click w l) (ret Selected) s) = s\<lparr>trace := trace s @ [LinkClick l]\<rparr>"
  by (simp add: seq_def bind_def ret_def link_click_def perform_def split: option.splits)

lemma results_match:
  "\<not> title_matches ''wilson pro staff 97'' (results ! 0)"
  "title_matches ''wilson pro staff 97'' (results ! 1)"
  by (simp_all add: results_def title_matches_def string_defs)

lemma printed_options:
  "map (\<lambda>(idx, title). show_nat (idx + 1) @ ''. '' @ title)
     (enumerate 0 (map (\<lambda>(idx, l). option_title idx l) (enumerate 0 links)))
   = numbered_options links"
  by (rule nth_equalityI) (simp_all add: numbered_options_def nth_enumerate_eq)

lemma choose_from_list_asked:
  assumes "stdin s = line # rest" and "py_strip line \<noteq> []"
  shows "choose_from_list w item_name links s =
     try_value_error
       (bind (int_of (PStr (py_strip line)))
          (\<lambda>k. if k - 1 < 0 \<or> k - 1 \<ge> int (length links) then
                 seq (print_line ''Invalid selection. Please try again.'')
                     (ret (Continue item_name))
               else seq (link_click w (links ! nat (k - 1))) (ret Selected)))
       (seq (print_line ''Invalid input. Please try again.'') (ret (Continue item_name)))
       (s\<lparr>stdin := rest, console := console s @ listing links\<rparr>)"
proof -
  have ne: "line \<noteq> []" using assms(2) by auto
  show ?thesis
    unfolding choose_from_list_def Let_def printed_options
    using assms ne
    by (simp add: seq_def bind_def ret_def print_line_def print_lines_def get_user_input_def
          py_input_def listing_def)
qed

lemma py_int_2: "py_int (py_strip ''2 '') = Some 2"
  by (simp add: py_int_def parse_digits_def max_str_digits_def is_digit_def digit_val_def
        digits10_def string_defs)

lemmas dialogue_defs = dify_headless_purchase_flow_def purchase_dialogue_def read_request_def
  browser_automation_def
  get_user_input_def py_input_def getpass_def get_password_input_def ask_lower_def ask_strip_def
  ask_optional_def ask_variant_details_def category_loop.simps

lemma try_click_variant:
  assumes "truthy (entry_get es k) \<longrightarrow>
             returns_or_times_out w (trace s) (Click (text_selector (entry_get es k)) (Some 5000))"
  shows "try_timeout (click_variant w (PDict txt es) k) (ret ()) s
           = (Val (), s\<lparr>trace := trace s @ variant_click es k\<rparr>)"
proof (cases "truthy (entry_get es k)")
  case False
  then show ?thesis
    by (simp add: click_variant_def variant_click_def entry_get_def try_timeout_def bind_def ret_def)
next
  case True
  then obtain v where v: "map_of es k = Some v" "entry_get es k = v"
    by (auto simp: entry_get_def split: option.splits)
  from True assms have "returns_or_times_out w (trace s) (Click (text_selector v) (Some 5000))"
    by (simp add: v)
  then show ?thesis using True v
    by (cases "raises w (trace s) (Click (text_selector v) (Some 5000))")
       (auto simp: click_variant_def variant_click_def try_timeout_def bind_def ret_def
          page_click_def perform_def returns_or_times_out_def elim: is_timeout.elims)
qed

lemma timeout_cases: "is_timeout e \<Longrightarrow> \<exists>m. e = PlaywrightTimeoutError m"
  by (cases e) auto

lemma failed_attempt_continues:
  assumes "failed_search_calls w item_name (trace s) = Some cs" and "n < max_attempts"
  shows "search_attempt w item_name n s = (Val False, s\<lparr>trace := trace s @ cs\<rparr>)"
  using assms
  by (auto simp: search_attempt_def failed_search_calls_def Let_def bind_def seq_def ret_def
        try_timeout_def page_fill_def page_press_def wait_for_selector_def query_selector_all_def
        perform_def
        split: option.splits if_splits dest!: timeout_cases)

lemma failed_attempt_last:
  assumes "failed_search_calls w item_name (trace s) = Some cs" and "n \<ge> max_attempts"
  shows "\<exists>m \<in> search_failure_messages.
           search_attempt w item_name n s =
            (case raises w (trace s @ cs) BrowserClose of
               None \<Rightarrow> Return m
             | Some e \<Rightarrow> Raise e, s\<lparr>trace := trace s @ cs @ [BrowserClose]\<rparr>)"
  using assms
  by (auto simp: search_attempt_def failed_search_calls_def Let_def bind_def seq_def ret_def
        try_timeout_def page_fill_def page_press_def wait_for_selector_def query_selector_all_def
        perform_def browser_close_def return_stmt_def search_failure_messages_def
        split: option.splits if_splits dest!: timeout_cases)

lemma loop_continues:
  assumes "a < max_attempts" and "search_attempt w item_name (a + 1) s = (Val False, s')"
  shows "search_loop w item_name False a s = search_loop w item_name False (a + 1) s'"
  using assms by (subst search_loop.simps) simp

lemma loop_exits:
  assumes "a < max_attempts" and "search_attempt w item_name (a + 1) s = (r, s')"
    and "\<And>x. r \<noteq> Val x"
  shows "search_loop w item_name False a s = (r, s')"
  using assms by (subst search_loop.simps) (cases r; auto)

lemma three_searches_fail:
  assumes "failed_searches w item_name 3 (trace s) = Some cs"
  shows "\<exists>m \<in> search_failure_messages.
           search_for_product w item_name s =
            (case raises w (trace s @ cs) BrowserClose of
               None \<Rightarrow> Return m
             | Some e \<Rightarrow> Raise e, s\<lparr>trace := trace s @ cs @ [BrowserClose]\<rparr>)"
proof -
  from assms obtain c1 c2 c3 where
    c1: "failed_search_calls w item_name (trace s) = Some c1" and
    c2: "failed_search_calls w item_name (trace s @ c1) = Some c2" and
    c3: "failed_search_calls w item_name (trace s @ c1 @ c2) = Some c3" and
    cs: "cs = c1 @ c2 @ c3"
    by (auto simp: numeral_3_eq_3 split: option.splits)
  let ?s1 = "s\<lparr>trace := trace s @ c1\<rparr>"
  let ?s2 = "s\<lparr>trace := trace s @ c1 @ c2\<rparr>"
  have a1: "search_attempt w item_name (0 + 1) s = (Val False, ?s1)"
    using failed_attempt_continues[OF c1, of "0 + 1"] by (simp add: max_attempts_def)
  have a2: "search_attempt w item_name (0 + 1 + 1) ?s1 = (Val False, ?s2)"
    using failed_attempt_continues[of w item_name ?s1 c2 "0 + 1 + 1"] c2
    by (simp add: max_attempts_def)
  from failed_attempt_last[of w item_name ?s2 c3 "0 + 1 + 1 + 1"] c3
  obtain m where m: "m \<in> search_failure_messages"
    "search_attempt w item_name (0 + 1 + 1 + 1) ?s2 =
       (case raises w (trace s @ cs) BrowserClose of None \<Rightarrow> Return m | Some e \<Rightarrow> Raise e,
        s\<lparr>trace := trace s @ cs @ [BrowserClose]\<rparr>)"
    by (auto simp: max_attempts_def cs)
  have "search_loop w item_name False 0 s = search_loop w item_name False (0 + 1) ?s1"
    by (rule loop_continues[OF _ a1]) (simp add: max_attempts_def)
  also have "\<dots> = search_loop w item_name False (0 + 1 + 1) ?s2"
    by (rule loop_continues[OF _ a2]) (simp add: max_attempts_def)
  also have "\<dots> = (case raises w (trace s @ cs) BrowserClose of None \<Rightarrow> Return m | Some e \<Rightarrow> Raise e,
           s\<lparr>trace := trace s @ cs @ [BrowserClose]\<rparr>)"
    by (rule loop_exits[OF _ m(2)]) (simp_all add: max_attempts_def split: option.splits)
  finally have "search_loop w item_name False 0 s =
          (case raises w (trace s @ cs) BrowserClose of None \<Rightarrow> Return m | Some e \<Rightarrow> Raise e,
           s\<lparr>trace := trace s @ cs @ [BrowserClose]\<rparr>)" .
  then have "search_for_product w item_name s =
          (case raises w (trace s @ cs) BrowserClose of None \<Rightarrow> Return m | Some e \<Rightarrow> Raise e,
           s\<lparr>trace := trace s @ cs @ [BrowserClose]\<rparr>)"
    by (simp add: search_for_product_def bind_def split: option.splits)
  with m(1) show ?thesis by blast
qed

lemma failed_search_one_fill:
  "failed_search_calls w item_name h = Some cs \<Longrightarrow> search_attempts cs = 1"
  by (auto simp: failed_search_calls_def Let_def search_attempts_def search_input_def
        product_links_def split: option.splits if_splits)

lemma search_attempts_append [simp]:
  "search_attempts (xs @ ys) = search_attempts xs + search_attempts ys"
  by (simp add: search_attempts_def)

lemma failed_searches_fills:
  "failed_searches w item_name n h = Some cs \<Longrightarrow> search_attempts cs = n"
proof (induction n arbitrary: h cs)
  case 0
  then show ?case by (simp add: search_attempts_def)
next
  case (Suc n)
  then show ?case
    by (auto split: option.splits dest: failed_search_one_fill)
qed

lemma adds_ret [simp]: "adds_searches 0 (ret x)"
  and adds_raise [simp]: "adds_searches 0 (raise e)"
  and adds_return [simp]: "adds_searches 0 (return_stmt r)"
  by (simp_all add: adds_searches_def ret_def raise_def return_stmt_def)

lemma adds_perform:
  "adds_searches (if is_search_fill c then 1 else 0) (perform w c)"
  by (simp add: adds_searches_def perform_def search_attempts_def split: option.splits)

lemma adds_query [simp]: "adds_searches 0 (query_selector_all w sel)"
  by (simp add: adds_searches_def query_selector_all_def search_attempts_def split: option.splits)

lemma adds_bind:
  assumes "adds_searches k m" and "\<And>x. adds_searches 0 (f x)"
  shows "adds_searches k (bind m f)"
  unfolding adds_searches_def
proof
  fix s
  obtain r s1 where m: "m s = (r, s1)" by (cases "m s")
  from assms(1) m have k: "search_attempts (trace s1) = search_attempts (trace s) + k"
    by (auto simp: adds_searches_def dest: spec[of _ s])
  show "search_attempts (trace (snd (bind m f s))) = search_attempts (trace s) + k"
  proof (cases r)
    case (Val x)
    from assms(2)[of x] have "search_attempts (trace (snd (f x s1))) = search_attempts (trace s1)"
      by (simp add: adds_searches_def)
    with k m Val show ?thesis by (simp add: bind_def)
  qed (use k m in \<open>simp_all add: bind_def\<close>)
qed

lemma adds_seq:
  "adds_searches k m \<Longrightarrow> adds_searches 0 n \<Longrightarrow> adds_searches k (seq m n)"
  unfolding seq_def by (rule adds_bind)

lemma adds_try_timeout:
  assumes "adds_searches k m" and "adds_searches 0 h"
  shows "adds_searches k (try_timeout m h)"
  unfolding adds_searches_def
proof
  fix s
  obtain r s1 where m: "m s = (r, s1)" by (cases "m s")
  from assms(1) m have k: "search_attempts (trace s1) = search_attempts (trace s) + k"
    by (auto simp: adds_searches_def dest: spec[of _ s])
  from assms(2) have h: "search_attempts (trace (snd (h s1))) = search_attempts (trace s1)"
    by (simp add: adds_searches_def)
  show "search_attempts (trace (snd (try_timeout m h s))) = search_attempts (trace s) + k"
    using k m h by (simp add: try_timeout_def split: res.splits exn.splits)
qed

lemma adds_select_product: "adds_searches 0 (select_product w item_name links)"
  using adds_perform[of "LinkClick l" w for l]
  by (simp add: select_product_def link_click_def split: option.splits list.splits)

lemma adds_close: "adds_searches 0 (browser_close w)"
  using adds_perform[of BrowserClose w] by (simp add: browser_close_def)

lemma search_attempt_adds: "adds_searches 1 (search_attempt w item_name n)"
  unfolding search_attempt_def
  apply (rule adds_bind)
   apply (rule adds_try_timeout)
    apply (rule adds_seq)
  using adds_perform[of "Fill search_input (PStr item_name)" w] apply (simp add: page_fill_def)
    apply (rule adds_seq)
  using adds_perform[of "Press search_input ''Enter''" w] apply (simp add: page_press_def)
    apply (rule adds_seq)
  using adds_perform[of "WaitForSelector product_links 10000" w] apply (simp add: wait_for_selector_def)
     apply simp
   apply (simp add: adds_seq adds_close)
  apply (auto intro!: adds_bind adds_seq adds_close adds_select_product)
  done

lemma attempt_one_fill:
  "search_attempts (trace (snd (search_attempt w item_name n s))) = search_attempts (trace s) + 1"
  using search_attempt_adds[of w item_name n] by (simp add: adds_searches_def)

lemma loop_fills:
  "search_attempts (trace (snd (search_loop w item_name sel a s)))
     \<le> search_attempts (trace s) + (max_attempts - a)"
proof (induction w item_name sel a s rule: search_loop.induct)
  case (1 w item_name product_selected attempts s)
  show ?case
  proof (cases "\<not> product_selected \<and> attempts < max_attempts")
    case False
    then show ?thesis using search_loop.simps[of w item_name product_selected attempts s] by auto
  next
    case True
    obtain r s' where r: "search_attempt w item_name (attempts + 1) s = (r, s')"
      by (cases "search_attempt w item_name (attempts + 1) s")
    have one: "search_attempts (trace s') = search_attempts (trace s) + 1"
      using attempt_one_fill[of w item_name "attempts + 1" s] r by simp
    show ?thesis
    proof (cases r)
      case (Val x)
      from "1.IH"[OF True r[symmetric] Val]
      have "search_attempts (trace (snd (search_loop w item_name x (attempts + 1) s')))
              \<le> search_attempts (trace s') + (max_attempts - (attempts + 1))"
        by simp
      then show ?thesis
        using True r Val one search_loop.simps[of w item_name product_selected attempts s]
        by (simp; arith)
    next
      case (Return x)
      then show ?thesis
        using True r one search_loop.simps[of w item_name product_selected attempts s]
        by (simp; arith)
    next
      case (Raise x)
      then show ?thesis
        using True r one search_loop.simps[of w item_name product_selected attempts s]
        by (simp; arith)
    qed
  qed
qed

lemma search_fills_bounded:
  "search_attempts (trace (snd (search_for_product w item_name s))) \<le> search_attempts (trace s) + 3"
proof -
  obtain r s' where r: "search_loop w item_name False 0 s = (r, s')"
    by (cases "search_loop w item_name False 0 s")
  have "search_attempts (trace s') \<le> search_attempts (trace s) + 3"
    using loop_fills[of w item_name False 0 s] r by (simp add: max_attempts_def)
  then show ?thesis using r
    by (auto simp: search_for_product_def bind_def seq_def ret_def browser_close_def perform_def
          return_stmt_def search_attempts_def split: res.splits option.splits)
qed

lemma extends_ret: "extends (ret x)"
  and extends_raise: "extends (raise e)"
  and extends_return: "extends (return_stmt r)"
  by (simp_all add: extends_def ret_def raise_def return_stmt_def)

lemma extends_perform: "extends (perform w c)"
  by (simp add: extends_def perform_def split: option.splits)

lemma extends_calls:
  "extends (page_fill w sel v)" "extends (page_press w sel k)" "extends (page_click w sel t)"
  "extends (page_select_option w sel v)" "extends (wait_for_selector w sel n)"
  "extends (link_click w l)" "extends (browser_close w)"
  by (simp_all add: page_fill_def page_press_def page_click_def page_select_option_def
        wait_for_selector_def link_click_def browser_close_def extends_perform)

lemma extends_query: "extends (query_selector_all w sel)"
  and extends_inner_text: "extends (page_inner_text w sel)"
  by (simp_all add: extends_def query_selector_all_def page_inner_text_def split: option.splits)

lemma extends_bind:
  assumes "extends m" and "\<And>x. extends (f x)"
  shows "extends (bind m f)"
  unfolding extends_def
proof
  fix s
  obtain r s1 where m: "m s = (r, s1)" by (cases "m s")
  from assms(1) m have p: "prefix (trace s) (trace s1)"
    by (auto simp: extends_def dest: spec[of _ s])
  show "prefix (trace s) (trace (snd (bind m f s)))"
  proof (cases r)
    case (Val x)
    from assms(2)[of x] have "prefix (trace s1) (trace (snd (f x s1)))"
      by (simp add: extends_def)
    with p m Val show ?thesis by (auto simp: bind_def intro: prefix_order.trans)
  qed (use p m in \<open>simp_all add: bind_def\<close>)
qed

lemma extends_seq: "extends m \<Longrightarrow> extends n \<Longrightarrow> extends (seq m n)"
  unfolding seq_def by (rule extends_bind)

lemma extends_try_timeout:
  assumes "extends m" and "extends h"
  shows "extends (try_timeout m h)"
  unfolding extends_def
proof
  fix s
  obtain r s1 where m: "m s = (r, s1)" by (cases "m s")
  from assms(1) m have p: "prefix (trace s) (trace s1)"
    by (auto simp: extends_def dest: spec[of _ s])
  from assms(2) have "prefix (trace s1) (trace (snd (h s1)))"
    by (simp add: extends_def)
  with p have "prefix (trace s) (trace (snd (h s1)))"
    by (rule prefix_order.trans)
  with p m show "prefix (trace s) (trace (snd (try_timeout m h s)))"
    by (simp add: try_timeout_def split: res.splits exn.splits)
qed

lemma extends_try_except:
  assumes "extends m" and "\<And>e. extends (h e)"
  shows "extends (try_except m h)"
  unfolding extends_def
proof
  fix s
  obtain r s1 where m: "m s = (r, s1)" by (cases "m s")
  from assms(1) m have p: "prefix (trace s) (trace s1)"
    by (auto simp: extends_def dest: spec[of _ s])
  have "prefix (trace s) (trace (snd (h e s1)))" for e
    using assms(2)[of e] p by (auto simp: extends_def intro: prefix_order.trans)
  with p m show "prefix (trace s) (trace (snd (try_except m h s)))"
    by (simp add: try_except_def split: res.splits)
qed

lemma extends_block_Nil: "extends (block [])"
  and extends_block_Cons: "extends m \<Longrightarrow> extends (block ms) \<Longrightarrow> extends (block (m # ms))"
  by (simp_all add: extends_ret extends_seq)

lemma extends_fallbacks_one: "extends m \<Longrightarrow> extends (fallbacks [m])"
  and extends_fallbacks_Cons:
    "extends m \<Longrightarrow> extends (fallbacks (n # ms)) \<Longrightarrow> extends (fallbacks (m # n # ms))"
  by (simp_all add: extends_try_except)

lemma extends_if: "extends a \<Longrightarrow> extends b \<Longrightarrow> extends (if c then a else b)"
  by simp

lemma extends_py_get: "extends (py_get v k)"
  and extends_py_getitem: "extends (py_getitem v k)"
  and extends_split: "extends (split_expiration v)"
  by (cases v; simp add: extends_ret extends_raise split: option.splits)+

lemmas extends_rules = extends_ret extends_raise extends_return extends_perform extends_calls
  extends_query extends_inner_text extends_bind extends_seq extends_try_timeout
  extends_try_except extends_block_Nil extends_block_Cons extends_fallbacks_one
  extends_fallbacks_Cons extends_if extends_py_get extends_py_getitem extends_split

lemma extends_select_product: "extends (select_product w item_name links)"
  by (simp add: select_product_def extends_rules split: option.splits list.splits)

lemma extends_search_attempt: "extends (search_attempt w item_name n)"
  unfolding search_attempt_def by (intro extends_rules extends_select_product)

lemma extends_variant_selection: "extends (variant_selection w category vd)"
  unfolding variant_selection_def click_variant_def fill_variant_def
  by (intro extends_rules)

lemma extends_stages:
  "extends (add_to_cart w)" "extends (close_popup w)" "extends (cart_and_checkout w)"
  "extends (apply_coupon w cc)" "extends (select_shipping_option w so)"
  "extends (gift_wrapping w gw)" "extends (proceed_to_payment w)" "extends (place_order w)"
  "extends (wait_for_confirmation w)"
  unfolding add_to_cart_def close_popup_def cart_and_checkout_def apply_coupon_def
    select_shipping_option_def gift_wrapping_def proceed_to_payment_def place_order_def
    wait_for_confirmation_def
  by (intro extends_rules)+

lemma extends_shipping:
  "extends (shipping_details w first_name last_name email phone address city state postal_code country)"
  unfolding shipping_details_def by (intro extends_rules)

lemma extends_fill_month_year: "extends (fill_month_year w v)"
  unfolding fill_month_year_def
  by (intro extends_rules) (simp add: extends_rules split: list.splits)

lemma extends_payment:
  "extends (payment_details w card_number card_expiration card_cvv billing_address address)"
  unfolding payment_details_def by (intro extends_rules extends_fill_month_year)

lemma extends_search_loop: "extends (search_loop w item_name sel a)"
  unfolding extends_def
proof
  fix s
  show "prefix (trace s) (trace (snd (search_loop w item_name sel a s)))"
  proof (induction w item_name sel a s rule: search_loop.induct)
    case (1 w item_name product_selected attempts s)
    show ?case
    proof (cases "\<not> product_selected \<and> attempts < max_attempts")
      case False
      then show ?thesis using search_loop.simps[of w item_name product_selected attempts s] by auto
    next
      case True
      obtain r s' where r: "search_attempt w item_name (attempts + 1) s = (r, s')"
        by (cases "search_attempt w item_name (attempts + 1) s")
      have p: "prefix (trace s) (trace s')"
        using extends_search_attempt[of w item_name "attempts + 1"] r
        by (auto simp: extends_def dest: spec[of _ s])
      show ?thesis
      proof (cases r)
        case (Val x)
        from "1.IH"[OF True r[symmetric] Val]
        have "prefix (trace s') (trace (snd (search_loop w item_name x (attempts + 1) s')))" .
        with p have "prefix (trace s) (trace (snd (search_loop w item_name x (attempts + 1) s')))"
          by (rule prefix_order.trans)
        then show ?thesis
          using True r Val search_loop.simps[of w item_name product_selected attempts s] by simp
      next
        case (Return x)
        then show ?thesis
          using True r p search_loop.simps[of w item_name product_selected attempts s] by simp
      next
        case (Raise x)
        then show ?thesis
          using True r p search_loop.simps[of w item_name product_selected attempts s] by simp
      qed
    qed
  qed
qed

lemma begins_perform: "begins_with c (perform w c)"
  by (simp add: begins_with_def perform_def split: option.splits)

lemma begins_bind:
  assumes "begins_with c m" and "\<And>x. extends (f x)"
  shows "begins_with c (bind m f)"
  unfolding begins_with_def
proof
  fix s
  obtain r s1 where m: "m s = (r, s1)" by (cases "m s")
  from assms(1) m have p: "prefix (trace s @ [c]) (trace s1)"
    by (auto simp: begins_with_def dest: spec[of _ s])
  show "prefix (trace s @ [c]) (trace (snd (bind m f s)))"
  proof (cases r)
    case (Val x)
    from assms(2)[of x] have "prefix (trace s1) (trace (snd (f x s1)))"
      by (simp add: extends_def)
    with p m Val show ?thesis by (auto simp: bind_def intro: prefix_order.trans)
  qed (use p m in \<open>simp_all add: bind_def\<close>)
qed

lemma begins_seq: "begins_with c m \<Longrightarrow> extends n \<Longrightarrow> begins_with c (seq m n)"
  unfolding seq_def by (rule begins_bind)

lemma begins_try_timeout:
  assumes "begins_with c m" and "extends h"
  shows "begins_with c (try_timeout m h)"
  unfolding begins_with_def
proof
  fix s
  obtain r s1 where m: "m s = (r, s1)" by (cases "m s")
  from assms(1) m have p: "prefix (trace s @ [c]) (trace s1)"
    by (auto simp: begins_with_def dest: spec[of _ s])
  from assms(2) have "prefix (trace s1) (trace (snd (h s1)))"
    by (simp add: extends_def)
  with p have "prefix (trace s @ [c]) (trace (snd (h s1)))"
    by (rule prefix_order.trans)
  with p m show "prefix (trace s @ [c]) (trace (snd (try_timeout m h s)))"
    by (simp add: try_timeout_def split: res.splits exn.splits)
qed

lemma then_calls_seq:
  assumes "begins_with d n"
  shows "then_calls w c d (seq (perform w c) n)"
  unfolding then_calls_def
proof (intro allI impI)
  fix s :: session
  assume "raises w (trace s) c = None"
  then have "seq (perform w c) n s = n (s\<lparr>trace := trace s @ [c]\<rparr>)"
    by (simp add: seq_def bind_def perform_def)
  moreover have "prefix (trace (s\<lparr>trace := trace s @ [c]\<rparr>) @ [d])
                   (trace (snd (n (s\<lparr>trace := trace s @ [c]\<rparr>))))"
    using assms unfolding begins_with_def by blast
  ultimately show "prefix (trace s @ [c, d]) (trace (snd (seq (perform w c) n s)))"
    by simp
qed

lemma then_calls_bind:
  assumes "then_calls w c d m" and "\<And>x. extends (f x)"
  shows "then_calls w c d (bind m f)"
  unfolding then_calls_def
proof (intro allI impI)
  fix s :: session
  assume c: "raises w (trace s) c = None"
  obtain r s1 where m: "m s = (r, s1)" by (cases "m s")
  from assms(1) c m have p: "prefix (trace s @ [c, d]) (trace s1)"
    by (auto simp: then_calls_def dest: spec[of _ s])
  show "prefix (trace s @ [c, d]) (trace (snd (bind m f s)))"
  proof (cases r)
    case (Val x)
    from assms(2)[of x] have "prefix (trace s1) (trace (snd (f x s1)))"
      by (simp add: extends_def)
    with p m Val show ?thesis by (auto simp: bind_def intro: prefix_order.trans)
  qed (use p m in \<open>simp_all add: bind_def\<close>)
qed

lemma then_calls_try_timeout:
  assumes "then_calls w c d m" and "extends h"
  shows "then_calls w c d (try_timeout m h)"
  unfolding then_calls_def
proof (intro allI impI)
  fix s :: session
  assume c: "raises w (trace s) c = None"
  obtain r s1 where m: "m s = (r, s1)" by (cases "m s")
  from assms(1) c m have p: "prefix (trace s @ [c, d]) (trace s1)"
    by (auto simp: then_calls_def dest: spec[of _ s])
  from assms(2) have "prefix (trace s1) (trace (snd (h s1)))"
    by (simp add: extends_def)
  with p have "prefix (trace s @ [c, d]) (trace (snd (h s1)))"
    by (rule prefix_order.trans)
  with p m show "prefix (trace s @ [c, d]) (trace (snd (try_timeout m h s)))"
    by (simp add: try_timeout_def split: res.splits exn.splits)
qed

lemma search_attempt_begins:
  "begins_with (Fill search_input (PStr item_name)) (search_attempt w item_name n)"
  unfolding search_attempt_def page_fill_def
  by (intro begins_bind begins_try_timeout begins_seq begins_perform extends_rules
        extends_select_product)

lemma search_attempt_then_press:
  "then_calls w (Fill search_input (PStr item_name)) (Press search_input ''Enter'')
     (search_attempt w item_name n)"
  unfolding search_attempt_def page_fill_def page_press_def
  by (intro then_calls_bind then_calls_try_timeout then_calls_seq begins_seq begins_perform
        extends_rules extends_select_product)

lemma search_loop_first:
  "prefix (trace (snd (search_attempt w item_name (0 + 1) s)))
     (trace (snd (search_loop w item_name False 0 s)))"
proof -
  obtain r s' where r: "search_attempt w item_name (0 + 1) s = (r, s')"
    by (cases "search_attempt w item_name (0 + 1) s")
  have "prefix (trace s') (trace (snd (search_loop w item_name x (0 + 1) s')))" for x
    using extends_search_loop[of w item_name x "0 + 1"] unfolding extends_def by blast
  then show ?thesis
    using r search_loop.simps[of w item_name False 0 s]
    by (cases r) (simp_all add: max_attempts_def)
qed

lemma search_for_product_after_loop:
  "prefix (trace (snd (search_loop w item_name False 0 s)))
     (trace (snd (search_for_product w item_name s)))"
proof -
  obtain r s' where r: "search_loop w item_name False 0 s = (r, s')"
    by (cases "search_loop w item_name False 0 s")
  have "prefix (trace s') (trace (snd ((seq (browser_close w) (return_stmt m) :: unit M) s')))"
    for m :: string
    using extends_seq[OF extends_calls(7) extends_return, of w m]
    unfolding extends_def by blast
  then show ?thesis
    using r by (cases r) (simp_all add: search_for_product_def bind_def ret_def)
qed

lemma search_for_product_first_calls:
  "prefix (trace s @ [Fill search_input (PStr item_name)])
     (trace (snd (search_for_product w item_name s)))"
  "raises w (trace s) (Fill search_input (PStr item_name)) = None \<Longrightarrow>
   prefix (trace s @ [Fill search_input (PStr item_name), Press search_input ''Enter''])
     (trace (snd (search_for_product w item_name s)))"
proof -
  have rest: "prefix (trace (snd (search_attempt w item_name (0 + 1) s)))
                (trace (snd (search_for_product w item_name s)))"
    using search_loop_first search_for_product_after_loop by (rule prefix_order.trans)
  have "prefix (trace s @ [Fill search_input (PStr item_name)])
          (trace (snd (search_attempt w item_name (0 + 1) s)))"
    using search_attempt_begins[of item_name w "0 + 1"] unfolding begins_with_def by blast
  then show "prefix (trace s @ [Fill search_input (PStr item_name)])
     (trace (snd (search_for_product w item_name s)))"
    using rest by (rule prefix_order.trans)
  assume "raises w (trace s) (Fill search_input (PStr item_name)) = None"
  then have "prefix (trace s @ [Fill search_input (PStr item_name), Press search_input ''Enter''])
          (trace (snd (search_attempt w item_name (0 + 1) s)))"
    using search_attempt_then_press[of w item_name "0 + 1"] unfolding then_calls_def by blast
  then show "prefix (trace s @ [Fill search_input (PStr item_name), Press search_input ''Enter''])
     (trace (snd (search_for_product w item_name s)))"
    using rest by (rule prefix_order.trans)
qed

lemma prefix_bind:
  assumes "prefix p (trace (snd (m s)))" and "\<And>x. extends (f x)"
  shows "prefix p (trace (snd (bind m f s)))"
proof -
  obtain r s1 where m: "m s = (r, s1)" by (cases "m s")
  show ?thesis
  proof (cases r)
    case (Val x)
    from assms(2)[of x] have "prefix (trace s1) (trace (snd (f x s1)))"
      by (simp add: extends_def)
    with assms(1) m Val show ?thesis by (auto simp: bind_def intro: prefix_order.trans)
  qed (use assms(1) m in \<open>simp_all add: bind_def\<close>)
qed

lemma prefix_seq:
  "prefix p (trace (snd (m s))) \<Longrightarrow> extends n \<Longrightarrow> prefix p (trace (snd (seq m n s)))"
  unfolding seq_def by (rule prefix_bind)

lemma seq_perform_returns:
  "raises w (trace s) c = None \<Longrightarrow> seq (perform w c) n s = n (s\<lparr>trace := trace s @ [c]\<rparr>)"
  by (simp add: seq_def bind_def perform_def)

lemmas extends_stage_rules = extends_rules extends_variant_selection extends_stages
  extends_shipping extends_payment

lemma purchase_steps_first_calls:
  assumes "raises w (trace s) Launch = None"
    and "raises w (trace s @ [Launch]) NewPage = None"
    and "raises w (trace s @ [Launch, NewPage]) (Goto website_url) = None"
    and "prefix p (trace (snd (search_for_product w item_name
                     (s\<lparr>trace := trace s @ [Launch, NewPage, Goto website_url]\<rparr>))))"
  shows "prefix p (trace (snd (purchase_steps w website_url item_name category kwargs s)))"
  unfolding purchase_steps_def
proof (rule prefix_seq)
  show "extends (bind (wait_for_confirmation w)
          (\<lambda>confirmation_text. seq (browser_close w)
             (return_stmt (''Purchase flow executed successfully: '' @ confirmation_text))))"
    by (intro extends_stage_rules)
  show "prefix p (trace (snd (steps_to_place_order w website_url item_name category kwargs s)))"
    unfolding steps_to_place_order_def Let_def block.simps
    using assms(1-3)
    apply (simp add: seq_perform_returns)
    apply (rule prefix_seq)
    using assms(4) apply simp
    apply (intro extends_stage_rules)
    done
qed

lemma with_sync_playwright_trace:
  assumes "raises w (trace s) PlaywrightEnter = None"
  shows "trace (snd (with_sync_playwright w body s))
           = trace (snd (body (s\<lparr>trace := trace s @ [PlaywrightEnter]\<rparr>))) @ [PlaywrightExit]"
  using assms
  by (simp add: with_sync_playwright_def perform_def split: prod.splits option.splits res.splits)

lemma execute_first_calls:
  assumes "raises w (trace s) PlaywrightEnter = None"
    and "raises w (trace s @ [PlaywrightEnter]) Launch = None"
    and "raises w (trace s @ [PlaywrightEnter, Launch]) NewPage = None"
    and "raises w (trace s @ [PlaywrightEnter, Launch, NewPage]) (Goto website_url) = None"
    and "prefix p (trace (snd (search_for_product w item_name
           (s\<lparr>trace := trace s @ [PlaywrightEnter, Launch, NewPage, Goto website_url]\<rparr>))))"
  shows "prefix p (trace (snd (execute_purchase_flow w website_url item_name category kwargs s)))"
proof -
  let ?s1 = "s\<lparr>trace := trace s @ [PlaywrightEnter]\<rparr>"
  have "prefix p (trace (snd (purchase_steps w website_url item_name category kwargs ?s1)))"
    using assms(2-5) by (intro purchase_steps_first_calls) simp_all
  then have "prefix p (trace (snd (with_sync_playwright w
               (purchase_steps w website_url item_name category kwargs) s)))"
    by (simp add: with_sync_playwright_trace[OF assms(1)])
  then show ?thesis
    by (cases "with_sync_playwright w (purchase_steps w website_url item_name category kwargs) s")
       (auto simp: execute_purchase_flow_def split: res.splits)
qed

lemma py_strip_empty_iff: "py_strip s = [] \<longleftrightarrow> (\<forall>c \<in> set s. is_space c)"
proof
  assume "py_strip s = []"
  then have all: "\<forall>c \<in> set (dropWhile is_space s). is_space c"
    by (simp add: py_strip_def dropWhile_eq_Nil_conv)
  have "dropWhile is_space s = []"
  proof (cases "dropWhile is_space s")
    case (Cons c cs)
    with hd_dropWhile[of is_space s] all show ?thesis by auto
  qed simp
  then show "\<forall>c \<in> set s. is_space c" by (simp add: dropWhile_eq_Nil_conv)
next
  assume "\<forall>c \<in> set s. is_space c"
  then have d: "dropWhile is_space s = []" by (simp add: dropWhile_eq_Nil_conv)
  show "py_strip s = []" unfolding py_strip_def d by simp
qed

lemma lower_space: "is_space c \<Longrightarrow> lower_char c = c"
  by (auto simp: is_space_def lower_char_def is_upper_def Let_def)

lemma blank_lower: "py_strip s = [] \<Longrightarrow> py_strip (py_lower s) = []"
proof -
  assume "py_strip s = []"
  then have a: "\<forall>c \<in> set s. is_space c" by (simp add: py_strip_empty_iff)
  then have "py_lower s = s"
    by (simp add: py_lower_def lower_space map_idI)
  with a show ?thesis by (simp add: py_strip_empty_iff)
qed

lemma blank_item_name: "field_missing tp ''item_name'' \<Longrightarrow> item_name_of tp = []"
  by (auto simp: field_missing_def item_name_of_def dict_get_def blank_lower py_lower_def [of "[]"]
        split: option.splits)

lemma unconfirmed_wait:
  assumes "raises w (trace s) (confirmation_waits ! 0) = Some (PlaywrightTimeoutError m1)"
    and "raises w (trace s @ take 1 confirmation_waits) (confirmation_waits ! 1)
           = Some (PlaywrightTimeoutError m2)"
    and "raises w (trace s @ take 2 confirmation_waits) (confirmation_waits ! 2)
           = Some (PlaywrightTimeoutError m3)"
    and "raises w (trace s @ confirmation_waits) BrowserClose = None"
  shows "wait_for_confirmation w s =
           (Return ''Order may have been placed, but confirmation was not detected'',
            s\<lparr>trace := trace s @ confirmation_waits @ [BrowserClose]\<rparr>)"
  using assms
  by (simp add: wait_for_confirmation_def confirmation_waits_def try_except_def try_timeout_def
        seq_def bind_def wait_for_selector_def browser_close_def perform_def return_stmt_def)

lemma select_exact_match:
  assumes "\<exists>l \<in> set links. title_matches item_name l"
  shows "\<exists>i < length links.
           title_matches item_name (links ! i)
           \<and> (\<forall>j < i. \<not> title_matches item_name (links ! j))
           \<and> snd (select_product w item_name links s) = s\<lparr>trace := trace s @ [LinkClick (links ! i)]\<rparr>
           \<and> snd (interactive_select w item_name links s) = s\<lparr>trace := trace s @ [LinkClick (links ! i)]\<rparr>"
proof -
  from find_exact_match_first[OF assms] obtain i where i: "i < length links"
      "find_exact_match item_name links = Some (links ! i)" "title_matches item_name (links ! i)"
      "\<forall>j < i. \<not> title_matches item_name (links ! j)" by blast
  have "snd (select_product w item_name links s) = s\<lparr>trace := trace s @ [LinkClick (links ! i)]\<rparr>"
    by (simp add: select_product_def i(2) link_click_def snd_perform)
  moreover have "snd (interactive_select w item_name links s) = s\<lparr>trace := trace s @ [LinkClick (links ! i)]\<rparr>"
    by (simp add: interactive_select_def i(2) snd_click_selected)
  ultimately show ?thesis using i by blast
qed

lemma select_without_match:
  assumes "links \<noteq> []"
    and "\<not> (\<exists>l \<in> set links. title_matches item_name l)"
    and "stdin s = line # rest"
    and "py_strip line \<noteq> []"
  shows "snd (select_product w item_name links s) = s\<lparr>trace := trace s @ [LinkClick (links ! 0)]\<rparr>
    \<and> (case py_int (py_strip line) of
         None \<Rightarrow>
           interactive_select w item_name links s =
             (Val (Continue item_name),
              s\<lparr>stdin := rest,
                console := console s @ listing links @ [Printed ''Invalid input. Please try again.'']\<rparr>)
       | Some k \<Rightarrow>
           if k < 1 \<or> int (length links) < k then
             interactive_select w item_name links s =
               (Val (Continue item_name),
                s\<lparr>stdin := rest,
                  console := console s @ listing links @ [Printed ''Invalid selection. Please try again.'']\<rparr>)
           else
             trace (snd (interactive_select w item_name links s))
               = trace s @ [LinkClick (links ! nat (k - 1))]
             \<and> (raises w (trace s) (LinkClick (links ! nat (k - 1))) = None \<longrightarrow>
                  interactive_select w item_name links s =
                    (Val Selected,
                     s\<lparr>trace := trace s @ [LinkClick (links ! nat (k - 1))],
                       stdin := rest, console := console s @ listing links\<rparr>)))"
proof -
  from assms(2) have none: "find_exact_match item_name links = None"
    by (simp add: find_exact_match_None)
  from assms(1) obtain l0 ls where links: "links = l0 # ls" by (cases links) auto
  have prog: "snd (select_product w item_name links s) = s\<lparr>trace := trace s @ [LinkClick (links ! 0)]\<rparr>"
    using none by (simp add: select_product_def links link_click_def snd_perform)
  have sel: "interactive_select w item_name links s = choose_from_list w item_name links s"
    by (simp add: interactive_select_def none)
  show ?thesis
    unfolding sel choose_from_list_asked[OF assms(3,4)]
    using prog
    by (auto simp: try_value_error_def bind_def seq_def ret_def raise_def print_line_def
          link_click_def perform_def
          split: option.splits exn.splits)
qed

lemma browser_after_snoc:
  "browser_after w h b (cs @ [c]) = browser_step w (h @ cs) c (browser_after w h b cs)"
  by (induction cs arbitrary: h b) simp_all

lemma browser_open_snoc:
  "browser_open w (h @ [c]) = browser_step w h c (browser_open w h)"
  by (simp add: browser_open_def browser_after_snoc)

lemma cbr_close_return: "closes_before_return w (seq (browser_close w) (return_stmt r))"
  by (auto simp: closes_before_return_def seq_def bind_def browser_close_def perform_def
        return_stmt_def browser_open_snoc browser_step_def split: option.splits)

lemma cbr_ret: "closes_before_return w (ret x)"
  and cbr_raise: "closes_before_return w (raise e)"
  by (simp_all add: closes_before_return_def ret_def raise_def)

lemma cbr_perform: "closes_before_return w (perform w' c)"
  by (simp add: closes_before_return_def perform_def split: option.splits)

lemma cbr_calls:
  "closes_before_return w (page_fill w' sel v)" "closes_before_return w (page_press w' sel k)"
  "closes_before_return w (page_click w' sel t)"
  "closes_before_return w (page_select_option w' sel v)"
  "closes_before_return w (wait_for_selector w' sel n)"
  "closes_before_return w (link_click w' l)" "closes_before_return w (browser_close w')"
  by (simp_all add: page_fill_def page_press_def page_click_def page_select_option_def
        wait_for_selector_def link_click_def browser_close_def cbr_perform)

lemma cbr_query: "closes_before_return w (query_selector_all w' sel)"
  and cbr_inner_text: "closes_before_return w (page_inner_text w' sel)"
  by (simp_all add: closes_before_return_def query_selector_all_def page_inner_text_def
        split: option.splits)

lemma cbr_bind:
  assumes "closes_before_return w m" and "\<And>x. closes_before_return w (f x)"
  shows "closes_before_return w (bind m f)"
  unfolding closes_before_return_def
proof (intro allI impI)
  fix s r s'
  assume b: "bind m f s = (Return r, s')"
  obtain q s1 where m: "m s = (q, s1)" by (cases "m s")
  show "\<not> browser_open w (trace s')"
  proof (cases q)
    case (Val x)
    with b m have "f x s1 = (Return r, s')" by (simp add: bind_def)
    with assms(2)[of x] show ?thesis by (auto simp: closes_before_return_def)
  next
    case (Return r')
    with b m have "m s = (Return r, s')" by (simp add: bind_def)
    with assms(1) show ?thesis by (auto simp: closes_before_return_def)
  next
    case (Raise e)
    with b m show ?thesis by (simp add: bind_def)
  qed
qed

lemma cbr_seq:
  "closes_before_return w m \<Longrightarrow> closes_before_return w n \<Longrightarrow> closes_before_return w (seq m n)"
  unfolding seq_def by (rule cbr_bind)

lemma cbr_try_timeout:
  assumes "closes_before_return w m" and "closes_before_return w h"
  shows "closes_before_return w (try_timeout m h)"
  unfolding closes_before_return_def
proof (intro allI impI)
  fix s r s'
  assume b: "try_timeout m h s = (Return r, s')"
  obtain q s1 where m: "m s = (q, s1)" by (cases "m s")
  from b m have "m s = (Return r, s') \<or> h s1 = (Return r, s')"
    by (auto simp: try_timeout_def split: res.splits exn.splits)
  with assms show "\<not> browser_open w (trace s')"
    by (auto simp: closes_before_return_def)
qed

lemma cbr_try_except:
  assumes "closes_before_return w m" and "\<And>e. closes_before_return w (h e)"
  shows "closes_before_return w (try_except m h)"
  unfolding closes_before_return_def
proof (intro allI impI)
  fix s r s'
  assume b: "try_except m h s = (Return r, s')"
  obtain q s1 where m: "m s = (q, s1)" by (cases "m s")
  from b m have "m s = (Return r, s') \<or> (\<exists>e. h e s1 = (Return r, s'))"
    by (auto simp: try_except_def split: res.splits)
  with assms show "\<not> browser_open w (trace s')"
    by (auto simp: closes_before_return_def)
qed

lemma cbr_try_value_error:
  assumes "closes_before_return w m" and "closes_before_return w h"
  shows "closes_before_return w (try_value_error m h)"
  unfolding closes_before_return_def
proof (intro allI impI)
  fix s r s'
  assume b: "try_value_error m h s = (Return r, s')"
  obtain q s1 where m: "m s = (q, s1)" by (cases "m s")
  from b m have "m s = (Return r, s') \<or> h s1 = (Return r, s')"
    by (auto simp: try_value_error_def split: res.splits exn.splits)
  with assms show "\<not> browser_open w (trace s')"
    by (auto simp: closes_before_return_def)
qed

lemma cbr_block_Nil: "closes_before_return w (block [])"
  and cbr_block_Cons:
    "closes_before_return w m \<Longrightarrow> closes_before_return w (block ms)
       \<Longrightarrow> closes_before_return w (block (m # ms))"
  by (simp_all add: cbr_ret cbr_seq)

lemma cbr_fallbacks_one: "closes_before_return w m \<Longrightarrow> closes_before_return w (fallbacks [m])"
  and cbr_fallbacks_Cons:
    "closes_before_return w m \<Longrightarrow> closes_before_return w (fallbacks (n # ms))
       \<Longrightarrow> closes_before_return w (fallbacks (m # n # ms))"
  by (simp_all add: cbr_try_except)

lemma cbr_if:
  "closes_before_return w a \<Longrightarrow> closes_before_return w b
     \<Longrightarrow> closes_before_return w (if c then a else b)"
  by simp

lemma cbr_py_get: "closes_before_return w (py_get v k)"
  and cbr_py_getitem: "closes_before_return w (py_getitem v k)"
  and cbr_split: "closes_before_return w (split_expiration v)"
  by (cases v; simp add: cbr_ret cbr_raise split: option.splits)+

lemma cbr_console:
  "closes_before_return w (py_input p)" "closes_before_return w (getpass p)"
  "closes_before_return w (print_line l)" "closes_before_return w (print_lines ls)"
  by (simp_all add: closes_before_return_def py_input_def getpass_def print_line_def
        print_lines_def split: list.splits)

lemma cbr_str: "closes_before_return w (str_lower v)" "closes_before_return w (str_strip v)"
  "closes_before_return w (int_of v)"
  by (cases v; simp add: cbr_ret cbr_raise split: option.splits)+

lemma cbr_entry: "closes_before_return w (entry es k)"
  by (simp add: entry_def cbr_ret cbr_raise split: option.splits)

lemmas cbr_rules = cbr_close_return cbr_ret cbr_raise cbr_perform cbr_calls cbr_query
  cbr_inner_text cbr_bind cbr_seq cbr_try_timeout cbr_try_except cbr_try_value_error
  cbr_block_Nil cbr_block_Cons cbr_fallbacks_one cbr_fallbacks_Cons cbr_if cbr_py_get
  cbr_py_getitem cbr_split cbr_console cbr_str cbr_entry

lemma cbr_asks:
  "closes_before_return w (get_user_input p d)" "closes_before_return w (ask_lower p)"
  "closes_before_return w (ask_strip p)"
  unfolding get_user_input_def ask_lower_def ask_strip_def
  by (intro cbr_rules)+

lemma cbr_select_product: "closes_before_return w (select_product w item_name links)"
  by (simp add: select_product_def cbr_rules split: option.splits list.splits)

lemma cbr_search_attempt: "closes_before_return w (search_attempt w item_name n)"
  unfolding search_attempt_def by (intro cbr_rules cbr_select_product)

lemma cbr_variant_selection: "closes_before_return w (variant_selection w category vd)"
  unfolding variant_selection_def click_variant_def fill_variant_def
  by (intro cbr_rules)

lemma cbr_stages:
  "closes_before_return w (add_to_cart w)" "closes_before_return w (close_popup w)"
  "closes_before_return w (cart_and_checkout w)"
  "closes_before_return w (apply_coupon w cc)" "closes_before_return w (select_shipping_option w so)"
  "closes_before_return w (gift_wrapping w gw)" "closes_before_return w (proceed_to_payment w)"
  "closes_before_return w (place_order w)"
  unfolding add_to_cart_def close_popup_def cart_and_checkout_def apply_coupon_def
    select_shipping_option_def gift_wrapping_def proceed_to_payment_def place_order_def
  by (intro cbr_rules)+

lemma cbr_shipping:
  "closes_before_return w (shipping_details w first_name last_name email phone address city state postal_code country)"
  unfolding shipping_details_def by (intro cbr_rules)

lemma cbr_fill_month_year: "closes_before_return w (fill_month_year w v)"
  unfolding fill_month_year_def
  by (intro cbr_rules) (simp add: cbr_rules split: list.splits)

lemma cbr_payment:
  "closes_before_return w (payment_details w card_number card_expiration card_cvv billing_address address)"
  unfolding payment_details_def by (intro cbr_rules cbr_fill_month_year)

lemma cbr_wait_for_confirmation: "closes_before_return w (wait_for_confirmation w)"
  unfolding wait_for_confirmation_def by (intro cbr_rules)

lemma cbr_search_loop: "closes_before_return w (search_loop w item_name sel a)"
  unfolding closes_before_return_def
proof (intro allI impI)
  fix s r s'
  show "search_loop w item_name sel a s = (Return r, s') \<Longrightarrow> \<not> browser_open w (trace s')"
  proof (induction w item_name sel a s rule: search_loop.induct)
    case (1 w item_name product_selected attempts s)
    note run = "1.prems"
    show ?case
    proof (cases "\<not> product_selected \<and> attempts < max_attempts")
      case False
      then show ?thesis using run search_loop.simps[of w item_name product_selected attempts s]
        by auto
    next
      case True
      obtain q s1 where q: "search_attempt w item_name (attempts + 1) s = (q, s1)"
        by (cases "search_attempt w item_name (attempts + 1) s")
      show ?thesis
      proof (cases q)
        case (Val x)
        have "search_loop w item_name x (attempts + 1) s1 = (Return r, s')"
          using True q Val run search_loop.simps[of w item_name product_selected attempts s]
          by simp
        with "1.IH"[OF True q[symmetric] Val] show ?thesis .
      next
        case (Return r')
        then have "search_attempt w item_name (attempts + 1) s = (Return r, s')"
          using True q run search_loop.simps[of w item_name product_selected attempts s]
          by simp
        with cbr_search_attempt[of w item_name "attempts + 1"] show ?thesis
          by (auto simp: closes_before_return_def)
      next
        case (Raise e)
        then show ?thesis
          using True q run search_loop.simps[of w item_name product_selected attempts s]
          by simp
      qed
    qed
  qed
qed

lemma cbr_search_for_product: "closes_before_return w (search_for_product w item_name)"
  unfolding search_for_product_def by (intro cbr_rules cbr_search_loop)

lemmas cbr_stage_rules = cbr_rules cbr_search_for_product cbr_variant_selection cbr_stages
  cbr_shipping cbr_payment cbr_wait_for_confirmation

lemma cbr_purchase_steps:
  "closes_before_return w (purchase_steps w website_url item_name category kwargs)"
  unfolding purchase_steps_def steps_to_place_order_def Let_def
  by (intro cbr_stage_rules)

lemma cbr_choose_from_list: "closes_before_return w (choose_from_list w item_name links)"
  unfolding choose_from_list_def Let_def
  by (intro cbr_rules cbr_asks)

lemma cbr_interactive_select: "closes_before_return w (interactive_select w item_name links)"
  by (simp add: interactive_select_def cbr_rules cbr_choose_from_list split: option.splits)

lemma cbr_interactive_attempt: "closes_before_return w (interactive_attempt w item_name)"
  unfolding interactive_attempt_def
  apply (intro cbr_rules cbr_asks)
  apply (simp add: cbr_rules cbr_asks cbr_interactive_select split: option.splits)
  done

lemma cbr_interactive_search: "closes_before_return w (interactive_search w item_name)"
  unfolding closes_before_return_def
proof (intro allI impI)
  fix s r s'
  show "interactive_search w item_name s = (Return r, s') \<Longrightarrow> \<not> browser_open w (trace s')"
  proof (induction w item_name s rule: interactive_search.induct)
    case (1 w item_name s)
    note run = "1.prems"
    obtain q s1 where q: "interactive_attempt w item_name s = (q, s1)"
      by (cases "interactive_attempt w item_name s")
    show ?case
    proof (cases q)
      case (Val c)
      show ?thesis
      proof (cases c)
        case (Continue n)
        have "interactive_search w n s1 = (Return r, s')"
          using q Val Continue run interactive_search.simps[of w item_name s] by simp
        with "1.IH"[OF q[symmetric] Val Continue] show ?thesis .
      next
        case Selected
        then show ?thesis
          using q Val run interactive_search.simps[of w item_name s] by simp
      qed
    next
      case (Return r')
      then have "interactive_attempt w item_name s = (Return r, s')"
        using q run interactive_search.simps[of w item_name s] by simp
      with cbr_interactive_attempt[of w item_name] show ?thesis
        by (auto simp: closes_before_return_def)
    next
      case (Raise e)
      then show ?thesis
        using q run interactive_search.simps[of w item_name s] by simp
    qed
  qed
qed

lemma cbr_interactive_stages:
  "closes_before_return w (interactive_variant_selection w category vd)"
  "closes_before_return w (interactive_add_to_cart w)"
  "closes_before_return w (interactive_checkout w)"
  "closes_before_return w (interactive_coupon w cc)"
  "closes_before_return w (interactive_proceed_to_payment w)"
  "closes_before_return w (interactive_payment w card_number card_expiration card_cvv billing_address address)"
  "closes_before_return w (interactive_place_order w)"
  "closes_before_return w (interactive_confirmation w)"
  unfolding interactive_variant_selection_def interactive_add_to_cart_def
    interactive_checkout_def interactive_coupon_def interactive_proceed_to_payment_def
    interactive_payment_def interactive_place_order_def interactive_confirmation_def
  by (intro cbr_rules)+

lemma cbr_interactive_shipping:
  "closes_before_return w (interactive_shipping w first_name last_name email phone address city state postal_code country)"
  unfolding interactive_shipping_def by (intro cbr_rules)

lemma cbr_browser_automation: "closes_before_return w (browser_automation w r)"
  unfolding browser_automation_def
  by (intro cbr_stage_rules cbr_interactive_search cbr_interactive_stages
        cbr_interactive_shipping)

lemma silent_ret: "silent (ret x)"
  and silent_raise: "silent (raise e)"
  by (simp_all add: silent_def ret_def raise_def)

lemma silent_bind:
  assumes "silent m" and "\<And>x. silent (f x)"
  shows "silent (bind m f)"
  unfolding silent_def
proof
  fix s
  obtain q s1 where m: "m s = (q, s1)" by (cases "m s")
  from assms(1) m have t: "trace s1 = trace s"
    by (auto simp: silent_def dest: spec[of _ s])
  show "trace (snd (bind m f s)) = trace s"
  proof (cases q)
    case (Val x)
    from assms(2)[of x] have "trace (snd (f x s1)) = trace s1" by (simp add: silent_def)
    with t m Val show ?thesis by (simp add: bind_def)
  qed (use t m in \<open>simp_all add: bind_def\<close>)
qed

lemma silent_if: "silent a \<Longrightarrow> silent b \<Longrightarrow> silent (if c then a else b)"
  by simp

lemma silent_let: "(\<And>x. silent (f x)) \<Longrightarrow> silent (Let v f)"
  by (simp add: Let_def)

lemma silent_console: "silent (py_input p)" "silent (getpass p)"
  by (simp_all add: silent_def py_input_def getpass_def split: list.splits)

lemma silent_str: "silent (str_lower v)" "silent (str_strip v)"
  by (cases v; simp add: silent_ret silent_raise)+

lemmas silent_rules = silent_ret silent_raise silent_bind silent_if silent_let silent_console
  silent_str

lemma silent_asks:
  "silent (get_user_input p d)" "silent (get_password_input p)" "silent (ask_lower p)"
  "silent (ask_strip p)" "silent (ask_optional q p)"
  unfolding get_user_input_def get_password_input_def ask_lower_def ask_strip_def
    ask_optional_def
  by (intro silent_rules)+

lemma silent_category_loop: "silent (category_loop c)"
  unfolding silent_def
proof
  fix s
  show "trace (snd (category_loop c s)) = trace s"
  proof (induction c s rule: category_loop.induct)
    case (1 category s)
    show ?case
    proof (cases "category \<notin> set PRODUCT_CATEGORIES")
      case False
      then show ?thesis using category_loop.simps[of category s] by simp
    next
      case True
      obtain q s1 where q: "ask_lower ''Invalid category. Please enter a valid category: '' s = (q, s1)"
        by (cases "ask_lower ''Invalid category. Please enter a valid category: '' s")
      have t: "trace s1 = trace s"
        using silent_asks(3)[of "''Invalid category. Please enter a valid category: ''"] q
        by (auto simp: silent_def dest: spec[of _ s])
      show ?thesis
      proof (cases q)
        case (Val x)
        from "1.IH"[OF True q[symmetric] Val] t show ?thesis
          using True q Val category_loop.simps[of category s] by simp
      qed (use True q t category_loop.simps[of category s] in simp_all)
    qed
  qed
qed

lemma silent_ask_variant_details: "silent (ask_variant_details category)"
  unfolding ask_variant_details_def
  by (intro silent_rules silent_asks)

lemma silent_read_request: "silent read_request"
  unfolding read_request_def
  by (intro silent_rules silent_asks silent_category_loop silent_ask_variant_details)

lemma with_sync_playwright_closed:
  assumes "\<not> browser_open w (trace s)" and "\<forall>h. raises w h PlaywrightExit = None"
  shows "\<not> browser_open w (trace (snd (with_sync_playwright w body s)))"
proof (cases "raises w (trace s) PlaywrightEnter")
  case None
  then show ?thesis
    using assms(2)
    by (simp add: with_sync_playwright_trace browser_open_snoc browser_step_def)
next
  case (Some e)
  then have "trace (snd (with_sync_playwright w body s)) = trace s @ [PlaywrightEnter]"
    by (simp add: with_sync_playwright_def perform_def)
  then show ?thesis using assms(1) by (simp add: browser_open_snoc browser_step_def)
qed

lemma snd_execute_purchase_flow:
  "snd (execute_purchase_flow w website_url item_name category kwargs s)
     = snd (with_sync_playwright w (purchase_steps w website_url item_name category kwargs) s)"
  by (simp add: execute_purchase_flow_def split: prod.splits res.splits)

lemma dify_after_read:
  assumes "read_request s = (Val rq, s1)"
  shows "snd (dify_headless_purchase_flow w s)
           = snd (with_sync_playwright w (browser_automation w rq) s1)"
  using assms
  by (simp add: dify_headless_purchase_flow_def purchase_dialogue_def bind_def try_except_def
        return_stmt_def split: prod.splits res.splits)

lemma dify_no_request:
  assumes "\<And>rq. fst (read_request s) \<noteq> Val rq"
  shows "snd (dify_headless_purchase_flow w s) = snd (read_request s)"
  using assms
  by (cases "read_request s")
     (auto simp: dify_headless_purchase_flow_def purchase_dialogue_def bind_def
        split: prod.splits res.splits)

lemma follows_refl [simp]: "follows s s"
  by (simp add: follows_def)

lemma follows_trans: "follows a b \<Longrightarrow> follows b c \<Longrightarrow> follows a c"
  unfolding follows_def by (auto intro: prefix_order.trans)

lemma growsD: "grows m \<Longrightarrow> follows s (snd (m s))"
  by (simp add: grows_def)

lemma grows_ret: "grows (ret x)"
  and grows_raise: "grows (raise e)"
  and grows_return: "grows (return_stmt r)"
  by (simp_all add: grows_def ret_def raise_def return_stmt_def)

lemma grows_perform: "grows (perform w c)"
  by (simp add: grows_def follows_def perform_def split: option.splits)

lemma grows_calls:
  "grows (page_fill w sel v)" "grows (page_press w sel k)" "grows (page_click w sel t)"
  "grows (page_select_option w sel v)" "grows (wait_for_selector w sel n)"
  "grows (link_click w l)" "grows (browser_close w)"
  by (simp_all add: page_fill_def page_press_def page_click_def page_select_option_def
        wait_for_selector_def link_click_def browser_close_def grows_perform)

lemma grows_query: "grows (query_selector_all w sel)"
  and grows_inner_text: "grows (page_inner_text w sel)"
  by (simp_all add: grows_def follows_def query_selector_all_def page_inner_text_def
        split: option.splits)

lemma grows_console:
  "grows (py_input p)" "grows (getpass p)" "grows (print_line l)" "grows (print_lines ls)"
  by (simp_all add: grows_def follows_def py_input_def getpass_def print_line_def
        print_lines_def split: list.splits)

lemma follows_bind:
  assumes "follows a (snd (m s))" and "\<And>x. grows (f x)"
  shows "follows a (snd (bind m f s))"
proof -
  obtain r s1 where m: "m s = (r, s1)" by (cases "m s")
  show ?thesis
  proof (cases r)
    case (Val x)
    from assms(2)[of x] have "follows s1 (snd (f x s1))" by (rule growsD)
    with assms(1) m Val show ?thesis by (auto simp: bind_def intro: follows_trans)
  qed (use assms(1) m in \<open>simp_all add: bind_def\<close>)
qed

lemma follows_seq: "follows a (snd (m s)) \<Longrightarrow> grows n \<Longrightarrow> follows a (snd (seq m n s))"
  unfolding seq_def by (rule follows_bind)

lemma grows_bind:
  assumes "grows m" and "\<And>x. grows (f x)"
  shows "grows (bind m f)"
  unfolding grows_def
proof
  fix s
  from assms(1) have "follows s (snd (m s))" by (rule growsD)
  then show "follows s (snd (bind m f s))" using assms(2) by (rule follows_bind)
qed

lemma grows_seq: "grows m \<Longrightarrow> grows n \<Longrightarrow> grows (seq m n)"
  unfolding seq_def by (rule grows_bind)

lemma grows_try_timeout:
  assumes "grows m" and "grows h"
  shows "grows (try_timeout m h)"
  unfolding grows_def
proof
  fix s
  obtain r s1 where m: "m s = (r, s1)" by (cases "m s")
  from assms(1) m have p: "follows s s1" by (auto dest: growsD[of m s])
  from assms(2) have "follows s1 (snd (h s1))" by (rule growsD)
  with p have "follows s (snd (h s1))" by (rule follows_trans)
  with p m show "follows s (snd (try_timeout m h s))"
    by (simp add: try_timeout_def split: res.splits exn.splits)
qed

lemma grows_try_value_error:
  assumes "grows m" and "grows h"
  shows "grows (try_value_error m h)"
  unfolding grows_def
proof
  fix s
  obtain r s1 where m: "m s = (r, s1)" by (cases "m s")
  from assms(1) m have p: "follows s s1" by (auto dest: growsD[of m s])
  from assms(2) have "follows s1 (snd (h s1))" by (rule growsD)
  with p have "follows s (snd (h s1))" by (rule follows_trans)
  with p m show "follows s (snd (try_value_error m h s))"
    by (simp add: try_value_error_def split: res.splits exn.splits)
qed

lemma grows_try_except:
  assumes "grows m" and "\<And>e. grows (h e)"
  shows "grows (try_except m h)"
  unfolding grows_def
proof
  fix s
  obtain r s1 where m: "m s = (r, s1)" by (cases "m s")
  from assms(1) m have p: "follows s s1" by (auto dest: growsD[of m s])
  have "follows s (snd (h e s1))" for e
    using growsD[OF assms(2), of s1 e] p by (auto intro: follows_trans)
  with p m show "follows s (snd (try_except m h s))"
    by (simp add: try_except_def split: res.splits)
qed

lemma grows_block_Nil: "grows (block [])"
  and grows_block_Cons: "grows m \<Longrightarrow> grows (block ms) \<Longrightarrow> grows (block (m # ms))"
  by (simp_all add: grows_ret grows_seq)

lemma grows_if: "grows a \<Longrightarrow> grows b \<Longrightarrow> grows (if c then a else b)"
  by simp

lemma grows_str: "grows (str_lower v)" "grows (str_strip v)" "grows (int_of v)"
  by (cases v; simp add: grows_ret grows_raise split: option.splits)+

lemma grows_entry: "grows (entry es k)"
  by (simp add: entry_def grows_ret grows_raise split: option.splits)

lemmas grows_rules = grows_ret grows_raise grows_return grows_perform grows_calls grows_query
  grows_inner_text grows_console grows_bind grows_seq grows_try_timeout grows_try_value_error
  grows_try_except grows_block_Nil grows_block_Cons grows_if grows_str grows_entry

lemma grows_asks: "grows (get_user_input p d)" "grows (ask_lower p)" "grows (ask_strip p)"
  unfolding get_user_input_def ask_lower_def ask_strip_def
  by (intro grows_rules)+

lemma grows_choose_from_list: "grows (choose_from_list w item_name links)"
  unfolding choose_from_list_def Let_def
  by (intro grows_rules grows_asks)

lemma grows_interactive_select: "grows (interactive_select w item_name links)"
  by (simp add: interactive_select_def grows_rules grows_choose_from_list split: option.splits)

lemma grows_interactive_attempt: "grows (interactive_attempt w item_name)"
  unfolding interactive_attempt_def
  apply (intro grows_rules grows_asks)
  apply (simp add: grows_rules grows_asks grows_interactive_select split: option.splits)
  done

lemma grows_interactive_search: "grows (interactive_search w item_name)"
  unfolding grows_def
proof
  fix s
  show "follows s (snd (interactive_search w item_name s))"
  proof (induction w item_name s rule: interactive_search.induct)
    case (1 w item_name s)
    obtain q s1 where q: "interactive_attempt w item_name s = (q, s1)"
      by (cases "interactive_attempt w item_name s")
    have p: "follows s s1"
      using growsD[OF grows_interactive_attempt, of s w item_name] q by simp
    show ?case
    proof (cases q)
      case (Val c)
      show ?thesis
      proof (cases c)
        case (Continue n)
        from "1.IH"[OF q[symmetric] Val Continue] p
        have "follows s (snd (interactive_search w n s1))" by (auto intro: follows_trans)
        then show ?thesis
          using q Val Continue interactive_search.simps[of w item_name s] by simp
      next
        case Selected
        then show ?thesis
          using q Val p interactive_search.simps[of w item_name s] by simp
      qed
    qed (use q p interactive_search.simps[of w item_name s] in simp_all)
  qed
qed

lemma grows_interactive_stages:
  "grows (interactive_variant_selection w category vd)"
  "grows (interactive_add_to_cart w)"
  "grows (close_popup w)"
  "grows (interactive_checkout w)"
  "grows (interactive_coupon w cc)"
  "grows (select_shipping_option w so)"
  "grows (gift_wrapping w gw)"
  "grows (interactive_proceed_to_payment w)"
  "grows (interactive_payment w card_number card_expiration card_cvv billing_address address)"
  "grows (interactive_place_order w)"
  "grows (interactive_confirmation w)"
  unfolding interactive_variant_selection_def interactive_add_to_cart_def close_popup_def
    interactive_checkout_def interactive_coupon_def select_shipping_option_def
    gift_wrapping_def interactive_proceed_to_payment_def
    interactive_payment_def interactive_place_order_def interactive_confirmation_def
  by (intro grows_rules)+

lemma grows_interactive_shipping:
  "grows (interactive_shipping w first_name last_name email phone address city state postal_code country)"
  unfolding interactive_shipping_def by (intro grows_rules)

lemmas grows_stage_rules = grows_rules grows_interactive_stages grows_interactive_shipping

lemma follows_with_sync_playwright:
  assumes "raises w (trace s) PlaywrightEnter = None"
  shows "follows (snd (body (s\<lparr>trace := trace s @ [PlaywrightEnter]\<rparr>)))
           (snd (with_sync_playwright w body s))"
  using assms
  by (simp add: with_sync_playwright_def perform_def follows_def
        split: prod.splits option.splits res.splits)

lemma follows_browser_automation:
  assumes "raises w (trace s) Launch = None"
    and "raises w (trace s @ [Launch]) NewPage = None"
    and "raises w (trace s @ [Launch, NewPage]) (Goto (req_website_url rq)) = None"
  shows "follows (snd (interactive_search w (req_item_name rq)
                     (s\<lparr>trace := trace s @ [Launch, NewPage, Goto (req_website_url rq)]\<rparr>)))
           (snd (browser_automation w rq s))"
  unfolding browser_automation_def
proof (rule follows_seq)
  show "grows (seq (browser_close w)
          (return_stmt ''Purchase flow executed successfully (please verify your order on the website).'') :: string M)"
    by (intro grows_rules)
  show "follows (snd (interactive_search w (req_item_name rq)
                     (s\<lparr>trace := trace s @ [Launch, NewPage, Goto (req_website_url rq)]\<rparr>)))
     (snd (block
          [perform w Launch, perform w NewPage, perform w (Goto (req_website_url rq)),
           interactive_search w (req_item_name rq),
           interactive_variant_selection w (req_category rq) (req_variant_details rq),
           interactive_add_to_cart w, close_popup w, interactive_checkout w,
           interactive_shipping w (req_first_name rq) (req_last_name rq) (req_email rq)
            (req_phone rq) (req_address rq) (req_city rq) (req_state rq) (req_postal_code rq)
            (req_country rq),
           interactive_coupon w (req_coupon_code rq),
           select_shipping_option w (req_shipping_option rq),
           gift_wrapping w (req_gift_wrapping_message rq), interactive_proceed_to_payment w,
           interactive_payment w (req_card_number rq) (req_card_expiration rq) (req_card_cvv rq)
            (req_billing_address rq) (req_address rq),
           interactive_place_order w, interactive_confirmation w] s))"
    unfolding block.simps
    using assms
    apply (simp add: seq_perform_returns)
    apply (rule follows_seq)
     apply simp
    apply (intro grows_stage_rules)
    done
qed

lemma loop_after_failures:
  "failed_searches w item_name n (trace s) = Some cs \<Longrightarrow> a + n < max_attempts \<Longrightarrow>
   search_loop w item_name False a s
     = search_loop w item_name False (a + n) (s\<lparr>trace := trace s @ cs\<rparr>)"
proof (induction n arbitrary: a s cs)
  case 0
  then show ?case by simp
next
  case (Suc n)
  from Suc.prems(1) obtain c1 ds where
    c1: "failed_search_calls w item_name (trace s) = Some c1" and
    ds: "failed_searches w item_name n (trace s @ c1) = Some ds" and
    cs: "cs = c1 @ ds"
    by (auto split: option.splits)
  let ?s1 = "s\<lparr>trace := trace s @ c1\<rparr>"
  have a1: "search_attempt w item_name (a + 1) s = (Val False, ?s1)"
    using failed_attempt_continues[OF c1, of "a + 1"] Suc.prems(2) by simp
  have "search_loop w item_name False a s = search_loop w item_name False (a + 1) ?s1"
    by (rule loop_continues[OF _ a1]) (use Suc.prems(2) in simp)
  also have "\<dots> = search_loop w item_name False (a + 1 + n) (?s1\<lparr>trace := trace ?s1 @ ds\<rparr>)"
    by (rule Suc.IH) (use ds Suc.prems(2) in simp_all)
  finally show ?case by (simp add: cs)
qed

lemma search_loop_pass:
  assumes "a < max_attempts"
  shows "prefix (trace (snd (search_attempt w item_name (a + 1) s)))
           (trace (snd (search_loop w item_name False a s)))"
proof -
  obtain r s' where r: "search_attempt w item_name (a + 1) s = (r, s')"
    by (cases "search_attempt w item_name (a + 1) s")
  have "prefix (trace s') (trace (snd (search_loop w item_name x (a + 1) s')))" for x
    using extends_search_loop[of w item_name x "a + 1"] unfolding extends_def by blast
  then show ?thesis
    using r assms search_loop.simps[of w item_name False a s]
    by (cases r) simp_all
qed

lemma search_attempt_finds:
  assumes "search_finds w item_name (trace s) links" and "links \<noteq> []"
  shows "search_attempt w item_name k s
           = seq (select_product w item_name links) (ret True)
               (s\<lparr>trace := trace s @ search_calls item_name\<rparr>)"
  using assms
  by (simp add: search_attempt_def search_finds_def search_calls_def Let_def bind_def seq_def
        ret_def try_timeout_def page_fill_def page_press_def wait_for_selector_def
        query_selector_all_def perform_def)

lemma snd_select_then_true:
  "snd (seq (select_product w item_name links) (ret True) s)
     = snd (select_product w item_name links s)"
  by (cases "select_product w item_name links s")
     (simp add: seq_def bind_def ret_def split: res.splits)

lemma programmatic_click:
  assumes "browser_starts w (trace s) website_url"
    and "n < max_attempts"
    and "failed_searches w item_name n (trace s @ start_calls website_url) = Some cs"
    and "search_finds w item_name (trace s @ start_calls website_url @ cs) links"
    and "links \<noteq> []"
    and "snd (select_product w item_name links
               (s\<lparr>trace := trace s @ start_calls website_url @ cs @ search_calls item_name\<rparr>))
           = s\<lparr>trace := trace s @ start_calls website_url @ cs @ search_calls item_name
                              @ [LinkClick l]\<rparr>"
  shows "prefix (trace s @ start_calls website_url @ cs @ search_calls item_name @ [LinkClick l])
           (trace (snd (execute_purchase_flow w website_url item_name category kwargs s)))"
proof -
  let ?s4 = "s\<lparr>trace := trace s @ [PlaywrightEnter, Launch, NewPage, Goto website_url]\<rparr>"
  let ?sn = "s\<lparr>trace := trace s @ start_calls website_url @ cs\<rparr>"
  have f: "failed_searches w item_name n (trace ?s4) = Some cs"
    using assms(3) by (simp add: start_calls_def)
  have "search_loop w item_name False 0 ?s4
          = search_loop w item_name False (0 + n) (?s4\<lparr>trace := trace ?s4 @ cs\<rparr>)"
    by (rule loop_after_failures[OF f]) (use assms(2) in simp)
  then have loop: "search_loop w item_name False 0 ?s4 = search_loop w item_name False n ?sn"
    by (simp add: start_calls_def)
  have "search_attempt w item_name (n + 1) ?sn
          = seq (select_product w item_name links) (ret True)
              (?sn\<lparr>trace := trace ?sn @ search_calls item_name\<rparr>)"
    by (rule search_attempt_finds) (use assms(4,5) in simp_all)
  then have "trace (snd (search_attempt w item_name (n + 1) ?sn))
          = trace s @ start_calls website_url @ cs @ search_calls item_name @ [LinkClick l]"
    using assms(6) by (simp add: snd_select_then_true)
  with search_loop_pass[OF assms(2), of w item_name ?sn]
  have "prefix (trace s @ start_calls website_url @ cs @ search_calls item_name @ [LinkClick l])
          (trace (snd (search_loop w item_name False 0 ?s4)))"
    by (simp add: loop)
  then have "prefix (trace s @ start_calls website_url @ cs @ search_calls item_name @ [LinkClick l])
          (trace (snd (search_for_product w item_name ?s4)))"
    using search_for_product_after_loop by (rule prefix_order.trans)
  then show ?thesis
    using assms(1) by (intro execute_first_calls) (simp_all add: browser_starts_def)
qed

lemma continued_passes_search:
  "continued_passes w n item_name s = Some (item_name', u) \<Longrightarrow>
   interactive_search w item_name s = interactive_search w item_name' u"
proof (induction n arbitrary: item_name s)
  case 0
  then show ?case by simp
next
  case (Suc n)
  from Suc.prems obtain nm s1 where
    a: "interactive_attempt w item_name s = (Val (Continue nm), s1)" and
    b: "continued_passes w n nm s1 = Some (item_name', u)"
    by (auto split: prod.splits res.splits loop_ctl.splits)
  have "interactive_search w item_name s = interactive_search w nm s1"
    using a by (subst interactive_search.simps) simp
  with Suc.IH[OF b] show ?case by simp
qed

lemma continued_passes_Suc:
  "continued_passes w n item_name s = Some (nm, u) \<Longrightarrow>
   interactive_attempt w nm u = (Val (Continue nm'), u') \<Longrightarrow>
   continued_passes w (Suc n) item_name s = Some (nm', u')"
proof (induction n arbitrary: item_name s)
  case 0
  then show ?case by simp
next
  case (Suc n)
  from Suc.prems(1) obtain x s1 where
    a: "interactive_attempt w item_name s = (Val (Continue x), s1)" and
    b: "continued_passes w n x s1 = Some (nm, u)"
    by (auto split: prod.splits res.splits loop_ctl.splits)
  from Suc.IH[OF b Suc.prems(2)] a show ?case by simp
qed

lemma interactive_search_pass:
  "follows (snd (interactive_attempt w item_name s)) (snd (interactive_search w item_name s))"
proof -
  obtain q s1 where q: "interactive_attempt w item_name s = (q, s1)"
    by (cases "interactive_attempt w item_name s")
  have "follows s1 (snd (interactive_search w n s1))" for n
    by (rule growsD[OF grows_interactive_search])
  then show ?thesis
    using q interactive_search.simps[of w item_name s]
    by (cases q) (simp_all split: loop_ctl.splits)
qed

lemma interactive_attempt_finds:
  assumes "search_finds w item_name (trace s) links" and "links \<noteq> []"
  shows "interactive_attempt w item_name s
           = interactive_select w item_name links
               (s\<lparr>trace := trace s @ search_calls item_name\<rparr>)"
  using assms
  by (simp add: interactive_attempt_def search_finds_def search_calls_def Let_def bind_def seq_def
        ret_def try_timeout_def page_fill_def page_press_def wait_for_selector_def
        query_selector_all_def perform_def)

lemma trace_read_request: "trace (snd (read_request s)) = trace s"
  using silent_read_request by (simp add: silent_def)

lemma interactive_flow_pass:
  assumes "fst (read_request s) = Val rq"
    and "browser_starts w (trace s) (req_website_url rq)"
    and "continued_passes w n (req_item_name rq) (search_entry rq s) = Some (nm, u)"
  shows "follows (snd (interactive_attempt w nm u)) (snd (dify_headless_purchase_flow w s))"
    and "interactive_search w (req_item_name rq) (search_entry rq s) = interactive_search w nm u"
proof -
  obtain s1 where r: "read_request s = (Val rq, s1)"
    using assms(1) by (metis prod.collapse)
  have t: "trace s1 = trace s" using trace_read_request[of s] r by simp
  let ?s2 = "s1\<lparr>trace := trace s1 @ [PlaywrightEnter]\<rparr>"
  have entry: "search_entry rq s
                 = ?s2\<lparr>trace := trace ?s2 @ [Launch, NewPage, Goto (req_website_url rq)]\<rparr>"
    using r t by (simp add: search_entry_def start_calls_def)
  show eq: "interactive_search w (req_item_name rq) (search_entry rq s) = interactive_search w nm u"
    using assms(3) by (rule continued_passes_search)
  have "follows (snd (interactive_search w (req_item_name rq)
                  (?s2\<lparr>trace := trace ?s2 @ [Launch, NewPage, Goto (req_website_url rq)]\<rparr>)))
          (snd (browser_automation w rq ?s2))"
    using assms(2) t by (intro follows_browser_automation) (simp_all add: browser_starts_def)
  then have "follows (snd (interactive_search w (req_item_name rq) (search_entry rq s)))
          (snd (browser_automation w rq ?s2))"
    unfolding entry .
  then have a: "follows (snd (interactive_search w nm u)) (snd (browser_automation w rq ?s2))"
    unfolding eq .
  have "follows (snd (browser_automation w rq ?s2))
          (snd (with_sync_playwright w (browser_automation w rq) s1))"
    using assms(2) t by (intro follows_with_sync_playwright) (simp add: browser_starts_def)
  then have b: "follows (snd (browser_automation w rq ?s2)) (snd (dify_headless_purchase_flow w s))"
    by (simp add: dify_after_read[OF r])
  have c: "follows (snd (interactive_attempt w nm u)) (snd (interactive_search w nm u))"
    by (rule interactive_search_pass)
  from c a have "follows (snd (interactive_attempt w nm u)) (snd (browser_automation w rq ?s2))"
    by (rule follows_trans)
  then show "follows (snd (interactive_attempt w nm u)) (snd (dify_headless_purchase_flow w s))"
    using b by (rule follows_trans)
qed

lemma search_loop_selects:
  assumes "n < max_attempts"
    and "failed_searches w item_name n (trace s) = Some cs"
    and "search_finds w item_name (trace s @ cs) links"
    and "links \<noteq> []"
    and "select_product w item_name links (s\<lparr>trace := trace s @ cs @ search_calls item_name\<rparr>)
           = (Val (), s')"
  shows "search_for_product w item_name s = (Val (), s')"
proof -
  let ?sn = "s\<lparr>trace := trace s @ cs\<rparr>"
  have "search_loop w item_name False 0 s = search_loop w item_name False (0 + n) ?sn"
    by (rule loop_after_failures[OF assms(2)]) (use assms(1) in simp)
  then have loop: "search_loop w item_name False 0 s = search_loop w item_name False n ?sn"
    by simp
  have "search_attempt w item_name (n + 1) ?sn
          = seq (select_product w item_name links) (ret True)
              (?sn\<lparr>trace := trace ?sn @ search_calls item_name\<rparr>)"
    by (rule search_attempt_finds) (use assms(3,4) in simp_all)
  then have att: "search_attempt w item_name (n + 1) ?sn = (Val True, s')"
    using assms(5) by (simp add: seq_def bind_def ret_def)
  have "search_loop w item_name False n ?sn = search_loop w item_name True (n + 1) s'"
    using assms(1) att by (subst search_loop.simps) simp
  also have "\<dots> = (Val True, s')"
    by (subst search_loop.simps) simp
  finally show ?thesis
    by (simp add: search_for_product_def bind_def ret_def loop)
qed

lemma select_product_clicks:
  assumes "snd (select_product w item_name links s) = s\<lparr>trace := trace s @ [LinkClick l]\<rparr>"
    and "raises w (trace s) (LinkClick l) = None"
    and "links \<noteq> []"
  shows "select_product w item_name links s = (Val (), s\<lparr>trace := trace s @ [LinkClick l]\<rparr>)"
proof -
  have "\<exists>l'. select_product w item_name links s = perform w (LinkClick l') s"
    using assms(3)
    by (auto simp: select_product_def link_click_def split: option.splits list.splits)
  then obtain l' where l': "select_product w item_name links s = perform w (LinkClick l') s"
    by blast
  then have "s\<lparr>trace := trace s @ [LinkClick l']\<rparr> = s\<lparr>trace := trace s @ [LinkClick l]\<rparr>"
    using assms(1) by (simp add: snd_perform)
  then have "trace (s\<lparr>trace := trace s @ [LinkClick l']\<rparr>) = trace (s\<lparr>trace := trace s @ [LinkClick l]\<rparr>)"
    by simp
  then have "l' = l" by simp
  with l' assms(2) show ?thesis by (simp add: perform_def)
qed

lemma interactive_select_clicks:
  assumes "find_exact_match item_name links = Some l"
    and "raises w (trace s) (LinkClick l) = None"
  shows "interactive_select w item_name links s = (Val Selected, s\<lparr>trace := trace s @ [LinkClick l]\<rparr>)"
  using assms
  by (simp add: interactive_select_def seq_def bind_def ret_def link_click_def perform_def)

lemma interactive_search_selected:
  assumes "interactive_attempt w item_name s = (Val Selected, s')"
  shows "interactive_search w item_name s = (Val (), s')"
  using assms by (subst interactive_search.simps) simp

lemma exact_match_programmatic:
  assumes "browser_starts w (trace s) website_url"
    and "n < max_attempts"
    and "failed_searches w item_name n (trace s @ start_calls website_url) = Some cs"
    and "search_finds w item_name (trace s @ start_calls website_url @ cs) links"
    and "\<exists>l \<in> set links. title_matches item_name l"
  shows "\<exists>i < length links.
           title_matches item_name (links ! i)
           \<and> (\<forall>j < i. \<not> title_matches item_name (links ! j))
           \<and> prefix (trace s @ start_calls website_url @ cs @ search_calls item_name
                       @ [LinkClick (links ! i)])
                (trace (snd (execute_purchase_flow w website_url item_name category kwargs s)))
           \<and> (raises w (trace s @ start_calls website_url @ cs @ search_calls item_name)
                 (LinkClick (links ! i)) = None
              \<longrightarrow> search_for_product w item_name (s\<lparr>trace := trace s @ start_calls website_url\<rparr>)
                    = (Val (), s\<lparr>trace := trace s @ start_calls website_url @ cs
                                     @ search_calls item_name @ [LinkClick (links ! i)]\<rparr>))"
proof -
  from assms(5) have ne: "links \<noteq> []" by auto
  let ?s8 = "s\<lparr>trace := trace s @ start_calls website_url @ cs @ search_calls item_name\<rparr>"
  from find_exact_match_first[OF assms(5)] obtain i where i:
    "i < length links" "find_exact_match item_name links = Some (links ! i)"
    "title_matches item_name (links ! i)" "\<forall>j < i. \<not> title_matches item_name (links ! j)"
    by blast
  have sel: "snd (select_product w item_name links ?s8)
               = ?s8\<lparr>trace := trace ?s8 @ [LinkClick (links ! i)]\<rparr>"
    by (simp add: select_product_def i(2) link_click_def snd_perform)
  have p: "prefix (trace s @ start_calls website_url @ cs @ search_calls item_name
                       @ [LinkClick (links ! i)])
                (trace (snd (execute_purchase_flow w website_url item_name category kwargs s)))"
    using assms(1-4) ne
    by (rule programmatic_click) (use sel in simp)
  have q: "search_for_product w item_name (s\<lparr>trace := trace s @ start_calls website_url\<rparr>)
             = (Val (), s\<lparr>trace := trace s @ start_calls website_url @ cs
                              @ search_calls item_name @ [LinkClick (links ! i)]\<rparr>)"
    if c: "raises w (trace s @ start_calls website_url @ cs @ search_calls item_name)
             (LinkClick (links ! i)) = None"
  proof (rule search_loop_selects[OF assms(2), where cs = cs and links = links])
    show "failed_searches w item_name n (trace (s\<lparr>trace := trace s @ start_calls website_url\<rparr>))
            = Some cs"
      using assms(3) by simp
    show "search_finds w item_name
            (trace (s\<lparr>trace := trace s @ start_calls website_url\<rparr>) @ cs) links"
      using assms(4) by simp
    show "links \<noteq> []" by (rule ne)
    show "select_product w item_name links
            (s\<lparr>trace := trace s @ start_calls website_url,
               trace := trace (s\<lparr>trace := trace s @ start_calls website_url\<rparr>) @ cs
                          @ search_calls item_name\<rparr>)
          = (Val (), s\<lparr>trace := trace s @ start_calls website_url @ cs
                              @ search_calls item_name @ [LinkClick (links ! i)]\<rparr>)"
      using c by (simp add: select_product_def i(2) link_click_def perform_def)
  qed
  show ?thesis
    apply (rule exI[of _ i])
    using i(1,3,4) p q apply simp
    done
qed

lemma exact_match_interactive:
  assumes "fst (read_request t) = Val rq"
    and "browser_starts w (trace t) (req_website_url rq)"
    and "continued_passes w m (req_item_name rq) (search_entry rq t) = Some (nm, u)"
    and "search_finds w nm (trace u) found"
    and "\<exists>l \<in> set found. title_matches nm l"
  shows "\<exists>i < length found.
             title_matches nm (found ! i)
             \<and> (\<forall>j < i. \<not> title_matches nm (found ! j))
             \<and> prefix (trace u @ search_calls nm @ [LinkClick (found ! i)])
                  (trace (snd (dify_headless_purchase_flow w t)))
             \<and> (raises w (trace u @ search_calls nm) (LinkClick (found ! i)) = None
                \<longrightarrow> interactive_search w (req_item_name rq) (search_entry rq t)
                      = (Val (), u\<lparr>trace := trace u @ search_calls nm
                                       @ [LinkClick (found ! i)]\<rparr>))"
proof -
  from assms(5) have ne: "found \<noteq> []" by auto
  let ?u4 = "u\<lparr>trace := trace u @ search_calls nm\<rparr>"
  from find_exact_match_first[OF assms(5)] obtain i where i:
    "i < length found" "find_exact_match nm found = Some (found ! i)"
    "title_matches nm (found ! i)" "\<forall>j < i. \<not> title_matches nm (found ! j)"
    by blast
  have att: "interactive_attempt w nm u = interactive_select w nm found ?u4"
    using assms(4) ne by (rule interactive_attempt_finds)
  have "snd (interactive_attempt w nm u) = ?u4\<lparr>trace := trace ?u4 @ [LinkClick (found ! i)]\<rparr>"
    by (simp add: att interactive_select_def i(2) snd_click_selected)
  moreover have "follows (snd (interactive_attempt w nm u)) (snd (dify_headless_purchase_flow w t))"
    using assms(1-3) by (rule interactive_flow_pass(1))
  ultimately have p: "prefix (trace u @ search_calls nm @ [LinkClick (found ! i)])
                  (trace (snd (dify_headless_purchase_flow w t)))"
    by (simp add: follows_def)
  have q: "interactive_search w (req_item_name rq) (search_entry rq t)
             = (Val (), u\<lparr>trace := trace u @ search_calls nm @ [LinkClick (found ! i)]\<rparr>)"
    if c: "raises w (trace u @ search_calls nm) (LinkClick (found ! i)) = None"
  proof -
    have "interactive_select w nm found ?u4
            = (Val Selected, ?u4\<lparr>trace := trace ?u4 @ [LinkClick (found ! i)]\<rparr>)"
      using i(2) by (rule interactive_select_clicks) (use c in simp)
    then have "interactive_search w nm u
            = (Val (), ?u4\<lparr>trace := trace ?u4 @ [LinkClick (found ! i)]\<rparr>)"
      unfolding att[symmetric] by (rule interactive_search_selected)
    moreover have "interactive_search w (req_item_name rq) (search_entry rq t)
                     = interactive_search w nm u"
      using assms(1-3) by (rule interactive_flow_pass(2))
    ultimately show ?thesis by simp
  qed
  show ?thesis
    apply (rule exI[of _ i])
    using i(1,3,4) p q apply simp
    done
qed

lemma no_match_programmatic:
  assumes "browser_starts w (trace s) website_url"
    and "n < max_attempts"
    and "failed_searches w item_name n (trace s @ start_calls website_url) = Some cs"
    and "search_finds w item_name (trace s @ start_calls website_url @ cs) links"
    and "links \<noteq> []"
    and "\<not> (\<exists>l \<in> set links. title_matches item_name l)"
  shows "prefix (trace s @ start_calls website_url @ cs @ search_calls item_name
                  @ [LinkClick (links ! 0)])
           (trace (snd (execute_purchase_flow w website_url item_name category kwargs s)))
       \<and> (raises w (trace s @ start_calls website_url @ cs @ search_calls item_name)
             (LinkClick (links ! 0)) = None
          \<longrightarrow> search_for_product w item_name (s\<lparr>trace := trace s @ start_calls website_url\<rparr>)
                = (Val (), s\<lparr>trace := trace s @ start_calls website_url @ cs
                                 @ search_calls item_name @ [LinkClick (links ! 0)]\<rparr>))"
proof -
  from assms(6) have none: "find_exact_match item_name links = None"
    by (simp add: find_exact_match_None)
  from assms(5) obtain l0 ls where links: "links = l0 # ls" by (cases links) auto
  let ?s8 = "s\<lparr>trace := trace s @ start_calls website_url @ cs @ search_calls item_name\<rparr>"
  have sel: "snd (select_product w item_name links ?s8)
               = ?s8\<lparr>trace := trace ?s8 @ [LinkClick (links ! 0)]\<rparr>"
    using none by (simp add: select_product_def links link_click_def snd_perform)
  have p: "prefix (trace s @ start_calls website_url @ cs @ search_calls item_name
                       @ [LinkClick (links ! 0)])
                (trace (snd (execute_purchase_flow w website_url item_name category kwargs s)))"
    using assms(1-5)
    by (rule programmatic_click) (use sel in simp)
  have q: "search_for_product w item_name (s\<lparr>trace := trace s @ start_calls website_url\<rparr>)
             = (Val (), s\<lparr>trace := trace s @ start_calls website_url @ cs
                              @ search_calls item_name @ [LinkClick (links ! 0)]\<rparr>)"
    if c: "raises w (trace s @ start_calls website_url @ cs @ search_calls item_name)
             (LinkClick (links ! 0)) = None"
  proof (rule search_loop_selects[OF assms(2), where cs = cs and links = links])
    show "failed_searches w item_name n (trace (s\<lparr>trace := trace s @ start_calls website_url\<rparr>))
            = Some cs"
      using assms(3) by simp
    show "search_finds w item_name
            (trace (s\<lparr>trace := trace s @ start_calls website_url\<rparr>) @ cs) links"
      using assms(4) by simp
    show "links \<noteq> []" by (rule assms(5))
    show "select_product w item_name links
            (s\<lparr>trace := trace s @ start_calls website_url,
               trace := trace (s\<lparr>trace := trace s @ start_calls website_url\<rparr>) @ cs
                          @ search_calls item_name\<rparr>)
          = (Val (), s\<lparr>trace := trace s @ start_calls website_url @ cs
                              @ search_calls item_name @ [LinkClick (links ! 0)]\<rparr>)"
      using c none by (simp add: select_product_def links link_click_def perform_def)
  qed
  from p q show ?thesis by simp
qed

lemma grows_extends: "grows m \<Longrightarrow> extends m"
  by (simp add: grows_def extends_def follows_def)

lemma interactive_attempt_begins:
  "prefix (trace s @ [Fill search_input (PStr item_name)])
     (trace (snd (interactive_attempt w item_name s)))"
proof -
  have "begins_with (Fill search_input (PStr item_name)) (interactive_attempt w item_name)"
    unfolding interactive_attempt_def page_fill_def
    apply (rule begins_seq)
     apply (rule begins_perform)
    apply (rule grows_extends)
    apply (intro grows_rules grows_asks)
    apply (simp add: grows_rules grows_asks grows_interactive_select split: option.splits)
    done
  then show ?thesis by (simp add: begins_with_def)
qed

lemma listed_and_asked:
  assumes "\<And>x. grows (f x)"
  shows "follows (s\<lparr>console := console s @ Printed h # map Printed ls @ [Prompt p]\<rparr>)
           (snd (seq (print_line h) (seq (print_lines ls) (bind (get_user_input p d) f)) s))"
proof -
  let ?s2 = "s\<lparr>console := console s @ Printed h # map Printed ls\<rparr>"
  have "follows (s\<lparr>console := console s @ Printed h # map Printed ls @ [Prompt p]\<rparr>)
          (snd (get_user_input p d ?s2))"
    by (simp add: get_user_input_def py_input_def bind_def ret_def follows_def
          split: list.splits)
  then have "follows (s\<lparr>console := console s @ Printed h # map Printed ls @ [Prompt p]\<rparr>)
          (snd (bind (get_user_input p d) f ?s2))"
    using assms by (rule follows_bind)
  moreover have "seq (print_line h) (seq (print_lines ls) (bind (get_user_input p d) f)) s
                   = bind (get_user_input p d) f ?s2"
    by (simp add: seq_def bind_def[of "print_line h"] bind_def[of "print_lines ls"]
          print_line_def print_lines_def)
  ultimately show ?thesis by simp
qed

lemma choose_from_list_lists:
  "follows (s\<lparr>console := console s @ listing links\<rparr>)
     (snd (choose_from_list w item_name links s))"
  unfolding choose_from_list_def Let_def printed_options listing_def
  apply (rule listed_and_asked)
  apply (intro grows_rules grows_asks)
  done

lemma unmatched_list_shown:
  assumes "search_finds w nm (trace u) found" and "found \<noteq> []"
    and "\<not> (\<exists>l \<in> set found. title_matches nm l)"
  shows "prefix (console u @ listing found) (console (snd (interactive_attempt w nm u)))"
proof -
  let ?u4 = "u\<lparr>trace := trace u @ search_calls nm\<rparr>"
  from assms(3) have none: "find_exact_match nm found = None"
    by (simp add: find_exact_match_None)
  have "interactive_attempt w nm u = interactive_select w nm found ?u4"
    using assms(1,2) by (rule interactive_attempt_finds)
  then have "interactive_attempt w nm u = choose_from_list w nm found ?u4"
    by (simp add: interactive_select_def none)
  with choose_from_list_lists[of ?u4 found w nm] show ?thesis
    by (simp add: follows_def)
qed

lemma declined_pass:
  assumes "fst (read_request t) = Val rq"
    and "browser_starts w (trace t) (req_website_url rq)"
    and "continued_passes w m (req_item_name rq) (search_entry rq t) = Some (nm, u)"
    and "interactive_attempt w nm u = (Val (Continue nm), u')"
  shows "continued_passes w (Suc m) (req_item_name rq) (search_entry rq t) = Some (nm, u')
       \<and> asks_again w nm u' again (snd (dify_headless_purchase_flow w t))"
proof -
  let ?final = "snd (dify_headless_purchase_flow w t)"
  have next_pass: "continued_passes w (Suc m) (req_item_name rq) (search_entry rq t) = Some (nm, u')"
    using assms(3,4) by (rule continued_passes_Suc)
  have flow: "follows (snd (interactive_attempt w nm u')) ?final"
    using assms(1,2) next_pass by (rule interactive_flow_pass(1))
  have a: "prefix (trace u' @ [Fill search_input (PStr nm)]) (trace ?final)"
    using interactive_attempt_begins[of u' nm w] flow
    by (auto simp: follows_def intro: prefix_order.trans)
  have "follows u' (snd (interactive_attempt w nm u'))"
    by (rule growsD[OF grows_interactive_attempt])
  then have "follows u' ?final" using flow by (rule follows_trans)
  then have b: "prefix (console u') (console ?final)" by (simp add: follows_def)
  have c: "prefix (console u' @ listing again) (console ?final)"
    if "search_finds w nm (trace u') again" "again \<noteq> []"
       "\<not> (\<exists>l \<in> set again. title_matches nm l)"
    using unmatched_list_shown[OF that] flow
    by (auto simp: follows_def intro: prefix_order.trans)
  from a b c have "asks_again w nm u' again ?final"
    unfolding asks_again_def by blast
  with next_pass show ?thesis by simp
qed

lemma no_match_interactive:
  assumes "fst (read_request t) = Val rq"
    and "browser_starts w (trace t) (req_website_url rq)"
    and "continued_passes w m (req_item_name rq) (search_entry rq t) = Some (nm, u)"
    and "search_finds w nm (trace u) found"
    and "found \<noteq> []"
    and "\<not> (\<exists>l \<in> set found. title_matches nm l)"
    and "stdin u = line # rest"
    and "py_strip line \<noteq> []"
  shows "prefix (console u @ listing found) (console (snd (dify_headless_purchase_flow w t)))
    \<and> (case py_int (py_strip line) of
         None \<Rightarrow>
           continued_passes w (Suc m) (req_item_name rq) (search_entry rq t)
             = Some (nm, declined nm found rest ''Invalid input. Please try again.'' u)
           \<and> asks_again w nm (declined nm found rest ''Invalid input. Please try again.'' u)
                again (snd (dify_headless_purchase_flow w t))
       | Some k \<Rightarrow>
           if k < 1 \<or> int (length found) < k then
             continued_passes w (Suc m) (req_item_name rq) (search_entry rq t)
               = Some (nm, declined nm found rest ''Invalid selection. Please try again.'' u)
             \<and> asks_again w nm (declined nm found rest ''Invalid selection. Please try again.'' u)
                  again (snd (dify_headless_purchase_flow w t))
           else
             prefix (trace u @ search_calls nm @ [LinkClick (found ! nat (k - 1))])
               (trace (snd (dify_headless_purchase_flow w t)))
             \<and> (raises w (trace u @ search_calls nm) (LinkClick (found ! nat (k - 1))) = None
                \<longrightarrow> interactive_search w (req_item_name rq) (search_entry rq t)
                      = (Val (), u\<lparr>trace := trace u @ search_calls nm
                                       @ [LinkClick (found ! nat (k - 1))],
                                   stdin := rest, console := console u @ listing found\<rparr>)))"
proof -
  let ?final = "snd (dify_headless_purchase_flow w t)"
  let ?u4 = "u\<lparr>trace := trace u @ search_calls nm\<rparr>"
  have att: "interactive_attempt w nm u = interactive_select w nm found ?u4"
    using assms(4,5) by (rule interactive_attempt_finds)
  have flow: "follows (snd (interactive_attempt w nm u)) ?final"
    using assms(1-3) by (rule interactive_flow_pass(1))
  have shown: "prefix (console u @ listing found) (console ?final)"
    using unmatched_list_shown[OF assms(4-6)] flow
    by (auto simp: follows_def intro: prefix_order.trans)
  have typed: "stdin ?u4 = line # rest" using assms(7) by simp
  note sel = select_without_match[OF assms(5,6) typed assms(8), of w, THEN conjunct2]
  show ?thesis
  proof (cases "py_int (py_strip line)")
    case None
    with sel have "interactive_attempt w nm u
        = (Val (Continue nm), declined nm found rest ''Invalid input. Please try again.'' u)"
      by (simp add: att declined_def)
    from declined_pass[OF assms(1-3) this, of again] shown None show ?thesis by simp
  next
    case (Some k)
    show ?thesis
    proof (cases "k < 1 \<or> int (length found) < k")
      case True
      with sel Some have "interactive_attempt w nm u
          = (Val (Continue nm), declined nm found rest ''Invalid selection. Please try again.'' u)"
        by (simp add: att declined_def)
      from declined_pass[OF assms(1-3) this, of again] shown Some True show ?thesis by simp
    next
      case False
      with sel Some have tr: "trace (snd (interactive_attempt w nm u))
          = trace u @ search_calls nm @ [LinkClick (found ! nat (k - 1))]"
        by (simp add: att)
      then have p: "prefix (trace u @ search_calls nm @ [LinkClick (found ! nat (k - 1))])
                      (trace ?final)"
        using flow by (simp add: follows_def)
      have q: "interactive_search w (req_item_name rq) (search_entry rq t)
                 = (Val (), u\<lparr>trace := trace u @ search_calls nm
                                  @ [LinkClick (found ! nat (k - 1))],
                              stdin := rest, console := console u @ listing found\<rparr>)"
        if c: "raises w (trace u @ search_calls nm) (LinkClick (found ! nat (k - 1))) = None"
      proof -
        from sel Some False c have "interactive_attempt w nm u
            = (Val Selected, u\<lparr>trace := trace u @ search_calls nm
                                  @ [LinkClick (found ! nat (k - 1))],
                              stdin := rest, console := console u @ listing found\<rparr>)"
          by (simp add: att)
        then have "interactive_search w nm u
            = (Val (), u\<lparr>trace := trace u @ search_calls nm
                                  @ [LinkClick (found ! nat (k - 1))],
                              stdin := rest, console := console u @ listing found\<rparr>)"
          by (rule interactive_search_selected)
        moreover have "interactive_search w (req_item_name rq) (search_entry rq t)
                         = interactive_search w nm u"
          using assms(1-3) by (rule interactive_flow_pass(2))
        ultimately show ?thesis by simp
      qed
      from shown p q Some False show ?thesis by simp
    qed
  qed
qed

subsection \<open>Evaluated runs\<close>

lemma happy_run:
  "fst (execute_purchase_flow shop (website_url_of order_form) (item_name_of order_form)
          (category_of order_form) (extract_parameters order_form) session0)
   = ''Purchase flow executed successfully: Order 1001 confirmed''"
  by (simp add: execute_purchase_flow_def request_defs order_form_def string_defs
       stage_defs monad_defs search_loop.simps shop_def session0_def)

lemma silent_run:
  "fst (steps_to_place_order silent_shop (website_url_of order_form) (item_name_of order_form)
          (category_of order_form) (extract_parameters order_form)
          (session0\<lparr>trace := trace session0 @ [PlaywrightEnter]\<rparr>)) = Val ()"
  by (simp add: request_defs order_form_def string_defs stage_defs monad_defs search_loop.simps
        silent_shop_def confirmation_waits_def session0_def)

lemma stuck_cart_return:
  \<open>browser_automation stuck_cart_shop garment_request (session0\<lparr>trace := [PlaywrightEnter]\<rparr>) =
     (Return ''Error: Add to Cart Failed'',
      session0\<lparr>trace := [PlaywrightEnter, Launch, NewPage, Goto ''https://www.tennisexpress.com/'',
                          Fill search_input (PStr ''court shirt''), Press search_input ''Enter'',
                          WaitForSelector product_links 10000, QuerySelectorAll product_links,
                          LinkClick (Link 3 (Inr ''Court Shirt'')),
                          Click ''text="M"'' None, Click ''#addToCartButton'' None, BrowserClose]\<rparr>)\<close>
  by (simp add: browser_automation_def garment_request_def garment_details_def
        interactive_search.simps interactive_attempt_def interactive_select_def
        interactive_variant_selection_def interactive_add_to_cart_def entry_def text_selector_def
        string_defs monad_defs stuck_cart_shop_def session0_def)

lemma empty_shop_return:
  "purchase_steps empty_shop ''https://shop.example/'' ''clash 100'' ''racquet'' Map.empty
       (session0\<lparr>trace := [PlaywrightEnter]\<rparr>) =
     (Return ''Error: No products found matching the search criteria'',
      session0\<lparr>trace := [PlaywrightEnter, Launch, NewPage, Goto ''https://shop.example/'']
                          @ three_failed_searches @ [BrowserClose]\<rparr>)"
  by (simp add: purchase_steps_def steps_to_place_order_def search_for_product_def
        search_loop.simps search_attempt_def max_attempts_def dict_get_def Let_def
        monad_defs empty_shop_def three_failed_searches_def session0_def)

lemma unreachable_runs:
  "execute_purchase_flow unreachable_site ''https://www.tennisexpress.com/'' ''court shirt''
       ''garment'' Map.empty (session0\<lparr>stdin := garment_answers\<rparr>)
     = (''Error: net::ERR_NAME_NOT_RESOLVED'',
        session0\<lparr>trace := [PlaywrightEnter, Launch, NewPage,
                            Goto ''https://www.tennisexpress.com/'', PlaywrightExit],
                 stdin := garment_answers\<rparr>)"
  "fst (dify_headless_purchase_flow unreachable_site (session0\<lparr>stdin := garment_answers\<rparr>))
       = Inr ''Error: net::ERR_NAME_NOT_RESOLVED''"
  "trace (snd (dify_headless_purchase_flow unreachable_site (session0\<lparr>stdin := garment_answers\<rparr>)))
       = [PlaywrightEnter, Launch, NewPage, Goto ''https://www.tennisexpress.com/'', PlaywrightExit]"
proof -
  show "execute_purchase_flow unreachable_site ''https://www.tennisexpress.com/'' ''court shirt''
       ''garment'' Map.empty (session0\<lparr>stdin := garment_answers\<rparr>)
     = (''Error: net::ERR_NAME_NOT_RESOLVED'',
        session0\<lparr>trace := [PlaywrightEnter, Launch, NewPage,
                            Goto ''https://www.tennisexpress.com/'', PlaywrightExit],
                 stdin := garment_answers\<rparr>)"
    by (simp add: execute_purchase_flow_def purchase_steps_def steps_to_place_order_def
          dict_get_def Let_def monad_defs unreachable_site_def session0_def)
  have b: "dify_headless_purchase_flow unreachable_site (session0\<lparr>stdin := garment_answers\<rparr>)
     = (Inr ''Error: net::ERR_NAME_NOT_RESOLVED'',
        snd (dify_headless_purchase_flow unreachable_site (session0\<lparr>stdin := garment_answers\<rparr>)))
     \<and> trace (snd (dify_headless_purchase_flow unreachable_site (session0\<lparr>stdin := garment_answers\<rparr>)))
       = [PlaywrightEnter, Launch, NewPage, Goto ''https://www.tennisexpress.com/'', PlaywrightExit]"
    by (simp add: dialogue_defs monad_defs string_defs PRODUCT_CATEGORIES_def
          unreachable_site_def session0_def garment_answers_def)
  from b show "fst (dify_headless_purchase_flow unreachable_site (session0\<lparr>stdin := garment_answers\<rparr>))
       = Inr ''Error: net::ERR_NAME_NOT_RESOLVED''" by (metis fst_conv)
  from b show "trace (snd (dify_headless_purchase_flow unreachable_site (session0\<lparr>stdin := garment_answers\<rparr>)))
       = [PlaywrightEnter, Launch, NewPage, Goto ''https://www.tennisexpress.com/'', PlaywrightExit]"
    by simp
qed

subsection \<open>Input validation\<close>

text \<open>
  C1 (as amended). For every input mapping whose category is valid and in which at least
  one required field is missing (absent, or stripping to the empty string), the
  programmatic flow yields exactly one message, the text that lists the missing fields
  and no others, in the order of the list of required fields; the session is unchanged:
  no browser is launched and no browser call is made.
\<close>

theorem missing_fields_reported:
  assumes "category_of tp \<in> set PRODUCT_CATEGORIES"
    and "\<exists>f \<in> set required_fields. field_missing tp f"
  shows "invoke w tp s =
           ([TextMessage (''Missing required fields: ''
                          @ join '', '' (filter (field_missing tp) required_fields))], s)
         \<and> set (filter (field_missing tp) required_fields)
             = {f \<in> set required_fields. field_missing tp f}"
proof -
  from assms(2) have "filter (field_missing tp) required_fields \<noteq> []"
    by (simp add: filter_empty_conv)
  then have "extract_parameters tp =
      [''error'' \<mapsto> PStr (''Missing required fields: ''
                           @ join '', '' (filter (field_missing tp) required_fields))]"
    by (rule extract_parameters_missing)
  then show ?thesis
    using assms(1) by (simp add: invoke_def Let_def dict_get_def)
qed

theorem missing_fields_reported_witness:
  "category_of sparse_form \<in> set PRODUCT_CATEGORIES
   \<and> (\<exists>f \<in> set required_fields. field_missing sparse_form f)
   \<and> invoke quiet_site sparse_form session0 =
       ([TextMessage ''Missing required fields: last_name, email, address, city, state, postal_code, card_number, card_expiration, card_cvv''],
        session0)"
proof -
  have c: "category_of sparse_form \<in> set PRODUCT_CATEGORIES"
    by (simp add: request_defs sparse_form_def string_defs)
  have m: "\<exists>f \<in> set required_fields. field_missing sparse_form f"
    by (simp add: required_fields_def field_missing_def sparse_form_def)
  have f: "filter (field_missing sparse_form) required_fields =
             [''last_name'', ''email'', ''address'', ''city'', ''state'',
              ''postal_code'', ''card_number'', ''card_expiration'', ''card_cvv'']"
    by (simp add: required_fields_def field_missing_def sparse_form_def string_defs)
  show ?thesis
    using c m missing_fields_reported [OF c m, of quiet_site session0] by (simp add: f)
qed

text \<open>
  The claim as first stated, for every input with a missing field, fails when the
  category is invalid too: the empty mapping lacks every required field, and the only
  message names the category.
\<close>

theorem missing_fields_invalid_category_counterexample:
  "field_missing Map.empty ''first_name''
   \<and> invoke quiet_site Map.empty session0 =
       ([TextMessage (''Invalid category '' @ [CHR 0x27, CHR 0x27]
                      @ ''. Valid categories are: racquet, garment, shoes, other'')], session0)"
  by (simp add: field_missing_def invoke_def request_defs string_defs)

text \<open>
  C2. For every input whose category, lower-cased and stripped, is not one of racquet,
  garment, shoes, other, the programmatic flow yields exactly one message, the text that
  names the invalid category and the valid categories; the session is unchanged, so no
  browser call is made and the purchase flow is not executed.
\<close>

theorem invalid_category_rejected:
  assumes "category_of tp \<notin> set [''racquet'', ''garment'', ''shoes'', ''other'']"
  shows "invoke w tp s =
           ([TextMessage (''Invalid category '' @ [CHR 0x27] @ category_of tp @ [CHR 0x27]
                          @ ''. Valid categories are: racquet, garment, shoes, other'')], s)"
  using assms by (simp add: invoke_def Let_def PRODUCT_CATEGORIES_def)

theorem invalid_category_rejected_witness:
  "category_of balls_form \<notin> set [''racquet'', ''garment'', ''shoes'', ''other'']
   \<and> invoke shop balls_form session0 =
       ([TextMessage (''Invalid category '' @ [CHR 0x27] @ ''balls'' @ [CHR 0x27]
                      @ ''. Valid categories are: racquet, garment, shoes, other'')], session0)"
proof -
  have c: "category_of balls_form = ''balls''"
    by (simp add: request_defs balls_form_def string_defs)
  have n: "category_of balls_form \<notin> set [''racquet'', ''garment'', ''shoes'', ''other'']"
    by (simp add: c)
  show ?thesis
    using n invalid_category_rejected [OF n, of shop session0] by (simp add: c)
qed

subsection \<open>The structured result\<close>

text \<open>
  C3. Whatever string the purchase-flow executor returns, the programmatic variant
  yields the start message and then the JSON message whose \<open>success\<close> is true exactly
  when that string does not start with \<open>Error:\<close> and whose \<open>message\<close> is that string,
  unchanged.
\<close>

theorem result_reporting:
  assumes "category_of tp \<in> set PRODUCT_CATEGORIES"
    and "extract_parameters tp ''error'' = None"
    and "execute_purchase_flow w (website_url_of tp) (item_name_of tp) (category_of tp)
           (extract_parameters tp) s = (result, s')"
  shows "invoke w tp s =
           ([TextMessage ''Starting purchase flow...'',
             JsonMessage (\<not> prefix ''Error:'' result) result], s')"
  using assms by (simp add: invoke_def Let_def)

theorem result_reporting_witness:
  "category_of order_form \<in> set PRODUCT_CATEGORIES
   \<and> extract_parameters order_form ''error'' = None
   \<and> fst (invoke shop order_form session0) =
       [TextMessage ''Starting purchase flow...'',
        JsonMessage True ''Purchase flow executed successfully: Order 1001 confirmed'']"
proof -
  obtain s' where run:
    "execute_purchase_flow shop (website_url_of order_form) (item_name_of order_form)
       (category_of order_form) (extract_parameters order_form) session0
     = (''Purchase flow executed successfully: Order 1001 confirmed'', s')"
    using happy_run by (metis prod.collapse)
  show ?thesis
    using order_form_category order_form_complete
      result_reporting [OF order_form_category order_form_complete run]
    by simp
qed

subsection \<open>The browser on the exit paths\<close>

text \<open>
  C4. In both variants, when no browser of the script is running before the call and the
  exit of the \<open>with sync_playwright()\<close> block does not fail, no browser is running when
  the function returns, on whatever site and however the flow ends: normal completion,
  the early return of a fatal step, or an exception raised anywhere in the flow. On the
  paths that end with a \<open>return\<close> inside the \<open>with\<close> block (the normal completion and
  every fatal step) the browser is already closed when the \<open>return\<close> is reached, by the
  \<open>browser.close()\<close> before it; on the path of an exception \<open>browser.close()\<close> is not
  called, and the browser ends with the driver when the \<open>with\<close> block is left, before the
  handler returns the \<open>Error:\<close> message.
\<close>

theorem browser_released_on_every_exit_path:
  assumes "\<not> browser_open w (trace s)"
    and "\<forall>h. raises w h PlaywrightExit = None"
  shows "\<not> browser_open w
             (trace (snd (execute_purchase_flow w website_url item_name category kwargs s)))
       \<and> \<not> browser_open w (trace (snd (dify_headless_purchase_flow w s)))
       \<and> (\<forall>t msg t'. purchase_steps w website_url item_name category kwargs t = (Return msg, t')
             \<longrightarrow> \<not> browser_open w (trace t'))
       \<and> (\<forall>t msg t'. browser_automation w rq t = (Return msg, t')
             \<longrightarrow> \<not> browser_open w (trace t'))"
proof -
  have a: "\<not> browser_open w
             (trace (snd (execute_purchase_flow w website_url item_name category kwargs s)))"
    unfolding snd_execute_purchase_flow using assms by (rule with_sync_playwright_closed)
  have b: "\<not> browser_open w (trace (snd (dify_headless_purchase_flow w s)))"
  proof (cases "\<exists>rq. fst (read_request s) = Val rq")
    case True
    then obtain rq s1 where r: "read_request s = (Val rq, s1)"
      by (metis prod.collapse)
    have "trace s1 = trace s"
      using silent_read_request r by (auto simp: silent_def dest: spec[of _ s])
    with assms(1) have "\<not> browser_open w (trace s1)" by simp
    then show ?thesis
      unfolding dify_after_read[OF r] using assms(2) by (rule with_sync_playwright_closed)
  next
    case False
    then have "snd (dify_headless_purchase_flow w s) = snd (read_request s)"
      by (intro dify_no_request) simp
    moreover have "trace (snd (read_request s)) = trace s"
      using silent_read_request by (simp add: silent_def)
    ultimately show ?thesis using assms(1) by simp
  qed
  have c: "\<forall>t msg t'. purchase_steps w website_url item_name category kwargs t = (Return msg, t')
             \<longrightarrow> \<not> browser_open w (trace t')"
    using cbr_purchase_steps[of w website_url item_name category kwargs]
    unfolding closes_before_return_def by blast
  have d: "\<forall>t msg t'. browser_automation w rq t = (Return msg, t')
             \<longrightarrow> \<not> browser_open w (trace t')"
    using cbr_browser_automation[of w rq] unfolding closes_before_return_def by blast
  from a b c d show ?thesis by blast
qed

text \<open>
  Three runs. On a site whose address does not resolve \<open>page.goto\<close> raises with the
  browser running; both variants return the \<open>Error:\<close> message and no browser is left. In
  a shop without products the programmatic search fails for good, and in a shop whose
  add-to-cart button is stuck the interactive variant gives up: both close the browser
  and return inside the \<open>with\<close> block.
\<close>

theorem browser_released_witness:
  "\<not> browser_open unreachable_site (trace (session0\<lparr>stdin := garment_answers\<rparr>))
   \<and> (\<forall>h. raises unreachable_site h PlaywrightExit = None)
   \<and> browser_open unreachable_site
        [PlaywrightEnter, Launch, NewPage, Goto ''https://www.tennisexpress.com/'']
   \<and> fst (execute_purchase_flow unreachable_site ''https://www.tennisexpress.com/''
             ''court shirt'' ''garment'' Map.empty (session0\<lparr>stdin := garment_answers\<rparr>))
       = ''Error: net::ERR_NAME_NOT_RESOLVED''
   \<and> \<not> browser_open unreachable_site
         (trace (snd (execute_purchase_flow unreachable_site ''https://www.tennisexpress.com/''
                        ''court shirt'' ''garment'' Map.empty
                        (session0\<lparr>stdin := garment_answers\<rparr>))))
   \<and> fst (dify_headless_purchase_flow unreachable_site (session0\<lparr>stdin := garment_answers\<rparr>))
       = Inr ''Error: net::ERR_NAME_NOT_RESOLVED''
   \<and> \<not> browser_open unreachable_site
         (trace (snd (dify_headless_purchase_flow unreachable_site
                        (session0\<lparr>stdin := garment_answers\<rparr>))))
   \<and> fst (purchase_steps empty_shop ''https://shop.example/'' ''clash 100'' ''racquet''
             Map.empty (session0\<lparr>trace := [PlaywrightEnter]\<rparr>))
       = Return ''Error: No products found matching the search criteria''
   \<and> \<not> browser_open empty_shop
         (trace (snd (purchase_steps empty_shop ''https://shop.example/'' ''clash 100''
                        ''racquet'' Map.empty (session0\<lparr>trace := [PlaywrightEnter]\<rparr>))))
   \<and> fst (browser_automation stuck_cart_shop garment_request
             (session0\<lparr>trace := [PlaywrightEnter]\<rparr>))
       = Return ''Error: Add to Cart Failed''
   \<and> \<not> browser_open stuck_cart_shop
         (trace (snd (browser_automation stuck_cart_shop garment_request
                        (session0\<lparr>trace := [PlaywrightEnter]\<rparr>))))"
proof -
  have closed: "\<not> browser_open w (trace (session0\<lparr>stdin := garment_answers\<rparr>))" for w
    by (simp add: browser_open_def session0_def)
  have exit1: "\<forall>h. raises unreachable_site h PlaywrightExit = None"
    by (simp add: unreachable_site_def)
  have exit2: "\<forall>h. raises empty_shop h PlaywrightExit = None"
    by (simp add: empty_shop_def)
  have exit3: "\<forall>h. raises stuck_cart_shop h PlaywrightExit = None"
    by (simp add: stuck_cart_shop_def)
  have running: "browser_open unreachable_site
        [PlaywrightEnter, Launch, NewPage, Goto ''https://www.tennisexpress.com/'']"
    by (simp add: browser_open_def browser_step_def unreachable_site_def)
  note one = browser_released_on_every_exit_path [OF closed exit1,
      of "''https://www.tennisexpress.com/''" "''court shirt''" "''garment''" Map.empty
         garment_request]
  note two = browser_released_on_every_exit_path [OF closed exit2,
      of "''https://shop.example/''" "''clash 100''" "''racquet''" Map.empty garment_request]
  note three = browser_released_on_every_exit_path [OF closed exit3,
      of "''https://shop.example/''" "''clash 100''" "''racquet''" Map.empty garment_request]
  have p: "\<not> browser_open empty_shop
         (trace (snd (purchase_steps empty_shop ''https://shop.example/'' ''clash 100''
                        ''racquet'' Map.empty (session0\<lparr>trace := [PlaywrightEnter]\<rparr>))))"
    using two empty_shop_return by (metis snd_conv)
  have q: "\<not> browser_open stuck_cart_shop
         (trace (snd (browser_automation stuck_cart_shop garment_request
                        (session0\<lparr>trace := [PlaywrightEnter]\<rparr>))))"
    using three stuck_cart_return by (metis snd_conv)
  show ?thesis
    using closed[of unreachable_site] exit1 running one p q
    by (simp add: unreachable_runs empty_shop_return stuck_cart_return)
qed

subsection \<open>Bounded search\<close>

text \<open>
  C7. In the programmatic variant the product search makes at most 3 attempts. When the
  browser starts and the page loads and each of the 3 attempts fails to produce result
  links, the flow makes exactly those 3 attempts, then calls \<open>browser.close()\<close>, and
  nothing else but the exit of the \<open>with\<close> block: no further search and no later step.
  The message it returns starts with \<open>Error:\<close>; it is one of the two search-failure
  messages when the close and the exit return.
\<close>

theorem search_bounded_and_fatal:
  assumes "raises w (trace s) PlaywrightEnter = None"
    and "raises w (trace s @ [PlaywrightEnter]) Launch = None"
    and "raises w (trace s @ [PlaywrightEnter, Launch]) NewPage = None"
    and "raises w (trace s @ [PlaywrightEnter, Launch, NewPage]) (Goto website_url) = None"
    and "failed_searches w item_name 3
           (trace s @ [PlaywrightEnter, Launch, NewPage, Goto website_url]) = Some cs"
  shows "search_attempts (trace (snd (search_for_product w item_name s0)))
           \<le> search_attempts (trace s0) + 3
       \<and> search_attempts cs = 3
       \<and> snd (execute_purchase_flow w website_url item_name category kwargs s)
           = s\<lparr>trace := trace s @ [PlaywrightEnter, Launch, NewPage, Goto website_url] @ cs
                            @ [BrowserClose, PlaywrightExit]\<rparr>
       \<and> prefix ''Error:'' (fst (execute_purchase_flow w website_url item_name category kwargs s))
       \<and> (raises w (trace s @ [PlaywrightEnter, Launch, NewPage, Goto website_url] @ cs)
             BrowserClose = None
          \<and> raises w (trace s @ [PlaywrightEnter, Launch, NewPage, Goto website_url] @ cs
                        @ [BrowserClose]) PlaywrightExit = None
          \<longrightarrow> fst (execute_purchase_flow w website_url item_name category kwargs s)
                \<in> search_failure_messages)"
proof -
  let ?s4 = "s\<lparr>trace := trace s @ [PlaywrightEnter, Launch, NewPage, Goto website_url]\<rparr>"
  let ?h = "trace s @ [PlaywrightEnter, Launch, NewPage, Goto website_url]"
  have "failed_searches w item_name 3 (trace ?s4) = Some cs"
    using assms(5) by simp
  from three_searches_fail[OF this] obtain m where m: "m \<in> search_failure_messages"
    "search_for_product w item_name ?s4 =
       (case raises w (?h @ cs) BrowserClose of None \<Rightarrow> Return m | Some e \<Rightarrow> Raise e,
        s\<lparr>trace := ?h @ cs @ [BrowserClose]\<rparr>)"
    by auto
  have pre: "prefix ''Error:'' m"
    using m(1) by (auto simp: search_failure_messages_def)
  have run: "execute_purchase_flow w website_url item_name category kwargs s =
      (case raises w (?h @ cs @ [BrowserClose]) PlaywrightExit of
         Some e \<Rightarrow> ''Error: '' @ exn_str e
       | None \<Rightarrow> (case raises w (?h @ cs) BrowserClose of
                    None \<Rightarrow> m
                  | Some e \<Rightarrow> ''Error: '' @ exn_str e),
       s\<lparr>trace := ?h @ cs @ [BrowserClose, PlaywrightExit]\<rparr>)"
    using assms(1-4) m(2)
    by (simp add: execute_purchase_flow_def purchase_steps_def steps_to_place_order_def Let_def
          with_sync_playwright_def seq_def bind_def perform_def split: option.splits)
  show ?thesis
    using search_fills_bounded[of w item_name s0] failed_searches_fills[OF assms(5)] pre m(1)
    by (simp add: run split: option.splits)
qed

theorem search_bounded_and_fatal_witness:
  "failed_searches empty_shop ''clash 100'' 3
       ([] @ [PlaywrightEnter, Launch, NewPage, Goto ''https://shop.example/''])
     = Some three_failed_searches
   \<and> search_attempts three_failed_searches = 3
   \<and> snd (execute_purchase_flow empty_shop ''https://shop.example/'' ''clash 100'' ''racquet''
             Map.empty session0)
       = session0\<lparr>trace := [PlaywrightEnter, Launch, NewPage, Goto ''https://shop.example/'']
                            @ three_failed_searches @ [BrowserClose, PlaywrightExit]\<rparr>
   \<and> fst (execute_purchase_flow empty_shop ''https://shop.example/'' ''clash 100'' ''racquet''
             Map.empty session0) \<in> search_failure_messages"
proof -
  have r: "raises empty_shop h c = None" if "\<nexists>sel t. c = WaitForSelector sel t" for h c
    using that by (auto simp: empty_shop_def)
  have f: "failed_searches empty_shop ''clash 100'' 3
             (trace session0 @ [PlaywrightEnter, Launch, NewPage, Goto ''https://shop.example/''])
           = Some three_failed_searches"
    by (simp add: numeral_3_eq_3 failed_search_calls_def Let_def empty_shop_def session0_def
          three_failed_searches_def)
  show ?thesis
    using f
      search_bounded_and_fatal [of empty_shop session0 "''https://shop.example/''" "''clash 100''"
        three_failed_searches session0 "''racquet''" Map.empty, OF r r r r f]
    by (simp add: r session0_def)
qed

subsection \<open>The item name is not validated\<close>

text \<open>
  C10. In the programmatic variant an absent or blank item name passes validation: for
  every input with a valid category and every required field present, whose item name is
  absent or strips to the empty string, the flow yields the start message and enters the
  browser; when the browser starts and the page loads, the next call fills the search
  field with the empty string, and when that call returns the flow presses Enter on it.
\<close>

theorem blank_item_name_is_searched:
  assumes "category_of tp \<in> set PRODUCT_CATEGORIES"
    and "\<not> (\<exists>f \<in> set required_fields. field_missing tp f)"
    and "field_missing tp ''item_name''"
    and "raises w (trace s) PlaywrightEnter = None"
    and "raises w (trace s @ [PlaywrightEnter]) Launch = None"
    and "raises w (trace s @ [PlaywrightEnter, Launch]) NewPage = None"
    and "raises w (trace s @ [PlaywrightEnter, Launch, NewPage]) (Goto (website_url_of tp)) = None"
  shows "hd (fst (invoke w tp s)) = TextMessage ''Starting purchase flow...''
       \<and> prefix (trace s @ [PlaywrightEnter, Launch, NewPage, Goto (website_url_of tp),
                             Fill search_input (PStr [])])
                (trace (snd (invoke w tp s)))
       \<and> (raises w (trace s @ [PlaywrightEnter, Launch, NewPage, Goto (website_url_of tp)])
             (Fill search_input (PStr [])) = None
          \<longrightarrow> prefix (trace s @ [PlaywrightEnter, Launch, NewPage, Goto (website_url_of tp),
                                  Fill search_input (PStr []), Press search_input ''Enter''])
                     (trace (snd (invoke w tp s))))"
proof -
  let ?h = "trace s @ [PlaywrightEnter, Launch, NewPage, Goto (website_url_of tp)]"
  let ?s4 = "s\<lparr>trace := ?h\<rparr>"
  let ?run = "execute_purchase_flow w (website_url_of tp) (item_name_of tp) (category_of tp)
                (extract_parameters tp) s"
  from assms(2) have complete: "extract_parameters tp ''error'' = None"
    by (intro extract_parameters_complete) (simp add: filter_empty_conv)
  have item: "item_name_of tp = []"
    using assms(3) by (rule blank_item_name)
  have inv: "invoke w tp s =
      ([TextMessage ''Starting purchase flow...'',
        JsonMessage (\<not> prefix ''Error:'' (fst ?run)) (fst ?run)], snd ?run)"
    using assms(1) complete by (simp add: invoke_def Let_def split: prod.splits)
  have one: "prefix (?h @ [Fill search_input (PStr [])]) (trace (snd ?run))"
    unfolding item
    using search_for_product_first_calls(1)[of ?s4 "[]" w]
    by (intro execute_first_calls[OF assms(4-7)]) simp
  have two: "prefix (?h @ [Fill search_input (PStr []), Press search_input ''Enter''])
               (trace (snd ?run))"
    if "raises w ?h (Fill search_input (PStr [])) = None"
    unfolding item
    using search_for_product_first_calls(2)[of w ?s4 "[]"] that
    by (intro execute_first_calls[OF assms(4-7)]) simp
  show ?thesis
    using one two by (simp add: inv)
qed

theorem blank_item_name_witness:
  "category_of blank_item_form \<in> set PRODUCT_CATEGORIES
   \<and> \<not> (\<exists>f \<in> set required_fields. field_missing blank_item_form f)
   \<and> field_missing blank_item_form ''item_name''
   \<and> hd (fst (invoke shop blank_item_form session0)) = TextMessage ''Starting purchase flow...''
   \<and> prefix [PlaywrightEnter, Launch, NewPage, Goto ''https://www.tennisexpress.com/'',
              Fill search_input (PStr []), Press search_input ''Enter'']
        (trace (snd (invoke shop blank_item_form session0)))"
proof -
  have c: "category_of blank_item_form \<in> set PRODUCT_CATEGORIES"
    by (simp add: request_defs blank_item_form_def order_form_def string_defs)
  have m: "\<not> (\<exists>f \<in> set required_fields. field_missing blank_item_form f)"
    by (simp add: required_fields_def field_missing_def blank_item_form_def order_form_def
          string_defs)
  have b: "field_missing blank_item_form ''item_name''"
    by (simp add: field_missing_def blank_item_form_def string_defs)
  have u: "website_url_of blank_item_form = ''https://www.tennisexpress.com/''"
    by (simp add: website_url_of_def dict_get_def blank_item_form_def order_form_def string_defs)
  have r: "raises shop h c = None" for h c
    by (simp add: shop_def)
  show ?thesis
    using c m b blank_item_name_is_searched [OF c m b r r r r, of session0]
    by (simp add: u r session0_def)
qed

subsection \<open>An order without confirmation\<close>

text \<open>
  C8. When every step up to the click that places the order completes, and neither the
  confirmation element nor one of the two confirmation texts appears before its wait
  times out (and the browser then closes normally), the flow returns the message that
  the order may have been placed but confirmation was not detected. The message does not
  start with \<open>Error:\<close>, so the structured result carries \<open>success\<close> true.
\<close>

theorem unconfirmed_order_is_not_an_error:
  assumes "category_of tp \<in> set PRODUCT_CATEGORIES"
    and "extract_parameters tp ''error'' = None"
    and "raises w (trace s) PlaywrightEnter = None"
    and "steps_to_place_order w (website_url_of tp) (item_name_of tp) (category_of tp)
           (extract_parameters tp) (s\<lparr>trace := trace s @ [PlaywrightEnter]\<rparr>) = (Val (), s')"
    and "raises w (trace s') (confirmation_waits ! 0) = Some (PlaywrightTimeoutError m1)"
    and "raises w (trace s' @ take 1 confirmation_waits) (confirmation_waits ! 1)
           = Some (PlaywrightTimeoutError m2)"
    and "raises w (trace s' @ take 2 confirmation_waits) (confirmation_waits ! 2)
           = Some (PlaywrightTimeoutError m3)"
    and "raises w (trace s' @ confirmation_waits) BrowserClose = None"
    and "raises w (trace s' @ confirmation_waits @ [BrowserClose]) PlaywrightExit = None"
  shows "invoke w tp s =
           ([TextMessage ''Starting purchase flow...'',
             JsonMessage True ''Order may have been placed, but confirmation was not detected''],
            s'\<lparr>trace := trace s' @ confirmation_waits @ [BrowserClose, PlaywrightExit]\<rparr>)
       \<and> \<not> prefix ''Error:'' ''Order may have been placed, but confirmation was not detected''"
proof -
  have "execute_purchase_flow w (website_url_of tp) (item_name_of tp) (category_of tp)
          (extract_parameters tp) s
        = (''Order may have been placed, but confirmation was not detected'',
           s'\<lparr>trace := trace s' @ confirmation_waits @ [BrowserClose, PlaywrightExit]\<rparr>)"
    using assms(3,4,9) unconfirmed_wait[OF assms(5-8)]
    by (simp add: execute_purchase_flow_def purchase_steps_def with_sync_playwright_def
          seq_def bind_def perform_def)
  then show ?thesis
    using assms(1,2) by (simp add: invoke_def Let_def)
qed

theorem unconfirmed_order_witness:
  "category_of order_form \<in> set PRODUCT_CATEGORIES
   \<and> extract_parameters order_form ''error'' = None
   \<and> fst (steps_to_place_order silent_shop (website_url_of order_form) (item_name_of order_form)
          (category_of order_form) (extract_parameters order_form)
          (session0\<lparr>trace := trace session0 @ [PlaywrightEnter]\<rparr>)) = Val ()
   \<and> fst (invoke silent_shop order_form session0) =
       [TextMessage ''Starting purchase flow...'',
        JsonMessage True ''Order may have been placed, but confirmation was not detected'']"
proof -
  let ?run = "steps_to_place_order silent_shop (website_url_of order_form)
          (item_name_of order_form) (category_of order_form) (extract_parameters order_form)
          (session0\<lparr>trace := trace session0 @ [PlaywrightEnter]\<rparr>)"
  have run: "?run = (Val (), snd ?run)"
    using silent_run by (metis prod.collapse)
  have quiet: "raises silent_shop h c = None" if "c \<notin> set confirmation_waits" for h c
    using that by (simp add: silent_shop_def)
  have slow: "raises silent_shop h (confirmation_waits ! i)
                = Some (PlaywrightTimeoutError ''Timeout exceeded.'')"
    if "i < length confirmation_waits" for h i
    using that by (simp add: silent_shop_def)
  have len: "0 < length confirmation_waits" "1 < length confirmation_waits"
    "2 < length confirmation_waits"
    by (simp_all add: confirmation_waits_def)
  have e: "PlaywrightEnter \<notin> set confirmation_waits" "BrowserClose \<notin> set confirmation_waits"
    "PlaywrightExit \<notin> set confirmation_waits"
    by (simp_all add: confirmation_waits_def)
  show ?thesis
    using order_form_category order_form_complete silent_run
      unconfirmed_order_is_not_an_error [OF order_form_category order_form_complete
        quiet[OF e(1)] run slow[OF len(1)] slow[OF len(2)] slow[OF len(3)]
        quiet[OF e(2)] quiet[OF e(3)]]
    by simp
qed

end
